(* ===== verification/Prelude.thy ===== *)
theory Prelude
  imports Main "HOL-Library.Word" "HOL-Library.State_Monad"
begin

text \<open>
  Shared vocabulary of the development: the machine types of the target (a 32-bit
  ESP32-S3, so \<open>size_t\<close> is 32 bits wide), the error numbers the sources return, the
  loop combinator every C loop of the model is written with, and the lemma collections
  the component proofs use.
\<close>

section \<open>Machine types\<close>

type_synonym byte = "8 word"
type_synonym u16 = "16 word"
type_synonym u32 = "32 word"
type_synonym u64 = "64 word"
type_synonym cstr = string

text \<open>
  A \<open>cstr\<close> is the sequence of characters before the terminating NUL of a C string.
\<close>

section \<open>Error numbers\<close>

abbreviation EIO :: int where "EIO \<equiv> 5"
abbreviation EBADF :: int where "EBADF \<equiv> 9"
abbreviation EAGAIN :: int where "EAGAIN \<equiv> 11"
abbreviation ENOMEM :: int where "ENOMEM \<equiv> 12"
abbreviation EINVAL :: int where "EINVAL \<equiv> 22"
abbreviation ECONNABORTED :: int where "ECONNABORTED \<equiv> 113"
abbreviation ETIMEDOUT :: int where "ETIMEDOUT \<equiv> 116"

section \<open>Lemma collections\<close>

named_theorems bal_simps \<open>how a platform call changes a resource counter\<close>
named_theorems pos_simps \<open>how a platform call changes a file position or a flash image\<close>

section \<open>Loops\<close>

text \<open>
  A C loop body is a state action on the loop's local variables: \<open>Inl r\<close> leaves the
  loop with the value \<open>r\<close> (a \<open>break\<close>, a \<open>return\<close>, a \<open>goto\<close> out of it or a failed loop
  condition), \<open>Inr x\<close> starts the next iteration with locals \<open>x\<close>. \<open>loop_fuel\<close> runs at most
  \<open>n\<close> iterations; \<open>None\<close> is "still running".
\<close>

fun loop_fuel :: "nat \<Rightarrow> ('x \<Rightarrow> ('s, 'r + 'x) state) \<Rightarrow> 'x \<Rightarrow> ('s, 'r option) state" where
  "loop_fuel 0 body x = State_Monad.return None"
| "loop_fuel (Suc n) body x = do {
     r \<leftarrow> body x;
     (case r of
        Inl v \<Rightarrow> State_Monad.return (Some v)
      | Inr y \<Rightarrow> loop_fuel n body y)
   }"

lemma loop_fuel_mono:
  "run_state (loop_fuel n body x) s = (Some v, t) \<Longrightarrow> n \<le> m
    \<Longrightarrow> run_state (loop_fuel m body x) s = (Some v, t)"
proof (induction n arbitrary: m x s)
  case 0
  then show ?case by simp
next
  case (Suc n)
  from Suc.prems(2) obtain k where m: "m = Suc k" and "n \<le> k"
    by (cases m) auto
  with Suc show ?case by (auto split: prod.splits sum.splits)
qed

text \<open>
  The contract of a loop: an invariant \<open>I\<close> of the locals and the state, kept by an
  iteration that continues, and a postcondition \<open>Q\<close> that every exit establishes.
\<close>

locale loop_contract =
  fixes body :: "'x \<Rightarrow> ('s, 'r + 'x) state"
    and I :: "'x \<Rightarrow> 's \<Rightarrow> bool"
    and Q :: "'r \<Rightarrow> 's \<Rightarrow> bool"
  assumes leaves: "I x s \<Longrightarrow> run_state (body x) s = (Inl v, t) \<Longrightarrow> Q v t"
    and continues: "I x s \<Longrightarrow> run_state (body x) s = (Inr y, t) \<Longrightarrow> I y t"
begin

lemma partial:
  "I x s \<Longrightarrow> run_state (loop_fuel n body x) s = (Some v, t) \<Longrightarrow> Q v t"
proof (induction n arbitrary: x s)
  case 0
  then show ?case by simp
next
  case (Suc n)
  obtain r s' where r: "run_state (body x) s = (r, s')" by fastforce
  show ?case
  proof (cases r)
    case (Inl v')
    with Suc.prems r leaves show ?thesis by auto
  next
    case (Inr y)
    with Suc.prems r have "I y s'" by (auto intro: continues)
    with Suc.IH Suc.prems r Inr show ?thesis by auto
  qed
qed

lemma running:
  "I x s \<Longrightarrow> run_state (loop_fuel n body x) s = (None, t) \<Longrightarrow> \<exists>y. I y t"
proof (induction n arbitrary: x s)
  case 0
  then show ?case by auto
next
  case (Suc n)
  obtain r s' where r: "run_state (body x) s = (r, s')" by fastforce
  with Suc.prems obtain y where y: "r = Inr y"
    by (cases r) auto
  with Suc.prems r have "I y s'" by (auto intro: continues)
  with Suc.IH Suc.prems r y show ?case by auto
qed

end

text \<open>What every invariant state and every exit have in common holds with any fuel.\<close>

context loop_contract begin

lemma throughout:
  assumes "I x s" and "run_state (loop_fuel n body x) s = (l, t)"
    and "\<And>v t. Q v t \<Longrightarrow> J t" and "\<And>y t. I y t \<Longrightarrow> J t"
  shows "J t"
proof (cases l)
  case None
  with running [OF assms(1)] assms(2,4) show ?thesis by blast
next
  case (Some v)
  with partial [OF assms(1)] assms(2,3) show ?thesis by blast
qed

end

text \<open>A loop that also has a variant returns, with any fuel above the variant.\<close>

locale total_loop = loop_contract body I Q
  for body :: "'x \<Rightarrow> ('s, 'r + 'x) state"
    and I :: "'x \<Rightarrow> 's \<Rightarrow> bool"
    and Q :: "'r \<Rightarrow> 's \<Rightarrow> bool" +
  fixes V :: "'x \<Rightarrow> 's \<Rightarrow> nat"
  assumes decreases: "I x s \<Longrightarrow> run_state (body x) s = (Inr y, t) \<Longrightarrow> V y t < V x s"
begin

lemma total:
  "I x s \<Longrightarrow> V x s < n \<Longrightarrow> \<exists>v t. run_state (loop_fuel n body x) s = (Some v, t) \<and> Q v t"
proof (induction n arbitrary: x s)
  case 0
  then show ?case by simp
next
  case (Suc n)
  obtain r s' where r: "run_state (body x) s = (r, s')" by fastforce
  show ?case
  proof (cases r)
    case (Inl v)
    with r Suc.prems leaves show ?thesis by auto
  next
    case (Inr y)
    with r Suc.prems have "I y s'" and "V y s' < n"
      by (auto intro: continues dest: decreases)
    from Suc.IH [OF this] r Inr show ?thesis by auto
  qed
qed

end

section \<open>Running programs symbolically\<close>

text \<open>
  Two ways to unfold a program. \<open>run_eval\<close> computes: it is for concrete runs. \<open>run_iff\<close>
  turns "the run of this program from \<open>s\<close> ends with \<open>x\<close> in \<open>t\<close>" into the chain of
  intermediate results, each a fresh variable, so that terms stay small when the
  platform's replies are unknown.
\<close>

named_theorems run_iff \<open>a run as a chain of intermediate results\<close>
named_theorems run_eval \<open>computing a run\<close>

declare run_state_bind [simp del, run_eval]

lemma run_bind_iff [run_iff]:
  "run_state (State_Monad.bind m f) s = (x, t) \<longleftrightarrow>
     (\<exists>y u. run_state m s = (y, u) \<and> run_state (f y) u = (x, t))"
  by (auto simp: run_state_bind split: prod.splits)

lemma run_return_iff [run_iff]:
  "run_state (State_Monad.return y) s = (x, t) \<longleftrightarrow> x = y \<and> t = s"
  by auto

lemma run_if_iff [run_iff]:
  "run_state (if b then m else n) s = (x, t) \<longleftrightarrow>
     (b \<and> run_state m s = (x, t)) \<or> (\<not> b \<and> run_state n s = (x, t))"
  by simp

lemma run_if [run_eval]:
  "run_state (if b then m else n) s = (if b then run_state m s else run_state n s)"
  by simp

lemma run_Let_iff [run_iff]:
  "run_state (Let y f) s = (x, t) \<longleftrightarrow> run_state (f y) s = (x, t)"
  by simp

lemma run_case_option_iff [run_iff]:
  "run_state (case z of None \<Rightarrow> m | Some y \<Rightarrow> f y) s = (x, t) \<longleftrightarrow>
     (z = None \<and> run_state m s = (x, t)) \<or>
     (\<exists>y. z = Some y \<and> run_state (f y) s = (x, t))"
  by (auto split: option.splits)

lemma run_case_sum_iff [run_iff]:
  "run_state (case z of Inl y \<Rightarrow> f y | Inr y \<Rightarrow> g y) s = (x, t) \<longleftrightarrow>
     (\<exists>y. z = Inl y \<and> run_state (f y) s = (x, t)) \<or>
     (\<exists>y. z = Inr y \<and> run_state (g y) s = (x, t))"
  by (auto split: sum.splits)

lemma run_case_prod_iff [run_iff]:
  "run_state (case p of (a, b) \<Rightarrow> f a b) s = (x, t) \<longleftrightarrow> run_state (f (fst p) (snd p)) s = (x, t)"
  by (cases p) simp

section \<open>Invariants of programs\<close>

text \<open>
  \<open>preserves J m\<close>: the program \<open>m\<close> keeps the invariant \<open>J\<close> of the state. The rules follow
  the structure of the program, so that \<open>intro pres_rules\<close> reduces a function to its calls.
\<close>

definition preserves :: "('s \<Rightarrow> bool) \<Rightarrow> ('s, 'a) state \<Rightarrow> bool" where
  "preserves J m \<longleftrightarrow> (\<forall>s r t. J s \<longrightarrow> run_state m s = (r, t) \<longrightarrow> J t)"

named_theorems pres_rules \<open>invariants along the structure of a program\<close>

lemma preservesD: "preserves J m \<Longrightarrow> J s \<Longrightarrow> run_state m s = (r, t) \<Longrightarrow> J t"
  unfolding preserves_def by blast

lemma preserves_bind [pres_rules]:
  "preserves J m \<Longrightarrow> (\<And>y. preserves J (f y)) \<Longrightarrow> preserves J (State_Monad.bind m f)"
  unfolding preserves_def run_bind_iff by blast

lemma preserves_return [pres_rules]: "preserves J (State_Monad.return x)"
  by (simp add: preserves_def)

lemma preserves_if [pres_rules]:
  "preserves J m \<Longrightarrow> preserves J n \<Longrightarrow> preserves J (if b then m else n)"
  by simp

lemma preserves_Let [pres_rules]: "(\<And>y. preserves J (f y)) \<Longrightarrow> preserves J (Let y f)"
  by simp

lemma preserves_option [pres_rules]:
  "preserves J m \<Longrightarrow> (\<And>y. preserves J (f y)) \<Longrightarrow>
    preserves J (case z of None \<Rightarrow> m | Some y \<Rightarrow> f y)"
  by (cases z) simp_all

lemma preserves_sum [pres_rules]:
  "(\<And>y. preserves J (f y)) \<Longrightarrow> (\<And>y. preserves J (g y)) \<Longrightarrow>
    preserves J (case z of Inl y \<Rightarrow> f y | Inr y \<Rightarrow> g y)"
  by (cases z) simp_all

lemma preserves_prod [pres_rules]:
  "(\<And>a b. preserves J (f a b)) \<Longrightarrow> preserves J (case p of (a, b) \<Rightarrow> f a b)"
  by (cases p) simp

lemma preserves_list [pres_rules]:
  "preserves J m \<Longrightarrow> (\<And>y ys. preserves J (f y ys)) \<Longrightarrow>
    preserves J (case l of [] \<Rightarrow> m | y # ys \<Rightarrow> f y ys)"
  by (cases l) simp_all

lemma preserves_loop [pres_rules]:
  "(\<And>x. preserves J (body x)) \<Longrightarrow> preserves J (loop_fuel n body x)"
proof (induction n arbitrary: x)
  case 0
  show ?case unfolding loop_fuel.simps by (rule preserves_return)
next
  case (Suc n)
  show ?case unfolding loop_fuel.simps
    by (intro preserves_bind preserves_sum preserves_return Suc.IH Suc.prems)
qed

text \<open>The rules for control flow alone, for invariants that depend on what the platform answers.\<close>

lemmas flow_rules = preserves_bind preserves_return preserves_if preserves_Let preserves_option
  preserves_sum preserves_prod preserves_list preserves_loop

text \<open>
  \<open>commutes f m\<close>: the program \<open>m\<close> neither reads nor writes what the state change \<open>f\<close>
  changes. As with invariants, the rules follow the structure of the program.
\<close>

definition commutes :: "('s \<Rightarrow> 's) \<Rightarrow> ('s, 'a) state \<Rightarrow> bool" where
  "commutes f m \<longleftrightarrow> (\<forall>s. run_state m (f s) = (fst (run_state m s), f (snd (run_state m s))))"

named_theorems comm_rules \<open>independence along the structure of a program\<close>

lemma commutesD: "commutes f m \<Longrightarrow> run_state m s = (x, t) \<Longrightarrow> run_state m (f s) = (x, f t)"
  by (simp add: commutes_def)

lemma commutes_bind [comm_rules]:
  "commutes f m \<Longrightarrow> (\<And>y. commutes f (g y)) \<Longrightarrow> commutes f (State_Monad.bind m g)"
  by (simp add: commutes_def run_state_bind split_beta)

lemma commutes_return [comm_rules]: "commutes f (State_Monad.return x)"
  by (simp add: commutes_def)

lemma commutes_if [comm_rules]:
  "commutes f m \<Longrightarrow> commutes f n \<Longrightarrow> commutes f (if b then m else n)"
  by simp

section \<open>Lists and words\<close>

lemma take_drop_snoc:
  "take p xs @ take k (drop p xs) = take (p + k) xs"
  by (simp add: take_add)

lemma unat_of_nat_small:
  "n < 2 ^ LENGTH('a) \<Longrightarrow> unat (of_nat n :: 'a::len word) = n"
  by (simp add: unat_of_nat take_bit_nat_eq_self)

lemma unat_u32_lt: "unat (w :: u32) < 2 ^ 32"
  using unsigned_less [of w, where 'a = nat] by simp

lemma unat_ucast_u64 [simp]: "unat (ucast (w :: u32) :: u64) = unat w"
proof -
  have "unat w < 2 ^ 64" using unat_u32_lt [of w] by simp
  then show ?thesis by (simp add: unsigned_ucast_eq take_bit_nat_eq_self)
qed

lemma unat_add_small:
  fixes a b :: "'a::len word"
  shows "unat a + unat b < 2 ^ LENGTH('a) \<Longrightarrow> unat (a + b) = unat a + unat b"
  by (simp add: unat_word_ariths)

lemma unat_sub_le:
  fixes a b :: "'a::len word"
  shows "b \<le> a \<Longrightarrow> unat (a - b) = unat a - unat b"
  by (simp add: unat_sub)

end
