(* ===== verification/Platform.thy ===== *)
theory Platform
  imports Prelude
begin

text \<open>
  The platform the program runs on (Zephyr's file systems, flash map, MCUboot, PSA
  crypto, sockets, Bluetooth host and kernel) is not part of the repository. The model
  keeps it abstract: every call into it is recorded in the state's trace together with
  the reply, and the reply is chosen by an environment, an arbitrary function of the
  history and the call. A statement that holds for every environment holds whatever the
  platform does; where a component relies on documented behaviour of the platform, a
  predicate on environments (such as \<open>file_content\<close>) states it as a hypothesis.
\<close>

section \<open>Platform calls\<close>

datatype fs_call =
    FsOpen cstr "fs_flag list"
  | FsStat cstr
  | FsRead u32
  | FsWrite "byte list"
  | FsSeekSet int
  | FsSync
  | FsClose
  | FsUnlink cstr
  | FsMkdir cstr
  | FsMount cstr
  | FsUnmount
  | FsStatvfs cstr
  | FsOpendir cstr
  | FsReaddir
  | FsClosedir
and fs_flag = FS_O_CREATE | FS_O_READ | FS_O_WRITE

text \<open>\<open>FS_O_RDWR\<close> is \<open>FS_O_READ | FS_O_WRITE\<close>.\<close>

datatype flash_call =
    FlashAreaOpen byte
  | FlashAreaErase u32 u32
  | FlashAreaWrite u32 "byte list"
  | FlashAreaFlatten
  | FlashAreaClose

datatype boot_call =
    BootFetchActiveSlot
  | BootRequestUpgradeTest
  | BootIsImgConfirmed
  | BootWriteImgConfirmed
  | SysRebootWarm

datatype psa_call =
    PsaCryptoInit
  | PsaHashSetupSha256
  | PsaHashUpdate "byte list"
  | PsaHashFinish
  | PsaHashAbort

datatype kern_call =
    KMalloc u32
  | KFree
  | KSleepMs int
  | KUptimeGet
  | SysRand8Get
  | Eventfd
  | EventfdWrite int nat
  | EventfdRead int
  | Poll "(int \<times> nat) list" int
  | Printk cstr

text \<open>
  What the shell is asked to show: the progress of a download, the bytes and the
  milliseconds of a speed test, any other line (named by its format string where its
  arguments are numbers).
\<close>

datatype shell_call =
    ShellProgress cstr int u32 u32
  | ShellBytes u32
  | ShellDownloadDone
  | ShellRate u32 int
  | ShellText cstr

datatype disk_call =
    DiskCtrlInit
  | DiskGetSectorCount
  | DiskGetSectorSize
  | DiskCtrlDeinit

datatype sa_family = AF_INET | AF_INET6

text \<open>
  A socket address is built from a numeric host and a port, or copied from the result of
  a name lookup.
\<close>

datatype sockaddr =
    SockaddrIn u16 cstr
  | SockaddrIn6 u16 cstr
  | SockaddrResolved "byte list"

text \<open>The request to join a network.\<close>

datatype wifi_security = WIFI_SECURITY_TYPE_NONE | WIFI_SECURITY_TYPE_PSK
datatype wifi_channel = WIFI_CHANNEL_ANY | WifiChannel nat
datatype wifi_band = WIFI_FREQ_BAND_2_4_GHZ | WIFI_FREQ_BAND_5_GHZ

record wifi_params =
  wifi_ssid :: cstr
  wifi_psk :: cstr
  wifi_security :: wifi_security
  wifi_channel :: wifi_channel
  wifi_band :: wifi_band

datatype net_call =
    GetAddrInfo cstr cstr
  | FreeAddrInfo
  | SocketTcp sa_family
  | Connect int sockaddr
  | SocketClose int
  | HttpClientReq int cstr cstr int
  | Recv int u32
  | Send int "byte list"
  | WebsocketConnect int cstr cstr int
  | WebsocketPing int
  | NetMgmtAddCallback
  | NetIfGetWifiSta
  | NetWifiConnect wifi_params

text \<open>
  Bluetooth: an address is its type byte and its six octets (least significant first,
  as \<open>bt_addr_le_t\<close> stores it). The advertising parameters are one of the three
  presets the source names, the identity option it sets and the identity it selects.
\<close>

datatype bt_addr = BtAddr (addr_type: byte) (addr_val: "byte list")

datatype adv_preset =
    ADV_CONN_FAST_1
  | ADV_CONN_DIR bt_addr
  | ADV_NCONN_FAST

record adv_param =
  preset :: adv_preset
  use_identity :: bool
  adv_id :: "int option"

type_synonym bt_data = "byte \<times> byte list"

text \<open>
  The last three are not calls but what the host does on its own: the controller ends
  advertising (a connection or a timeout), the work queue starts a work item.
\<close>

datatype bt_call =
    BtLeAdvStart adv_param "bt_data list" "bt_data list"
  | BtLeAdvStop
  | BtForeachBond int
  | BtUnpair int bt_addr
  | BtSetSecurityL2
  | BtConnParamUpdate u16 u16 u16 u16
  | BtIdCreate bt_addr
  | BtEnable
  | BtGattNotify nat "byte list"
  | KWorkSubmitAdv
  | KWorkRescheduleSwitch int
  | KWorkCancelSwitch
  | KSemGive
  | KSemTake
  | SettingsLoad
  | KThreadStart
  | HostAdvEnded
  | HostRunAdvWork
  | HostRunSwitchWork

datatype call =
    Fs fs_call
  | Flash flash_call
  | Boot boot_call
  | Psa psa_call
  | Kern kern_call
  | Shell shell_call
  | Disk disk_call
  | Net net_call
  | Bt bt_call

text \<open>
  A reply holds whatever the call hands back: its return value, the bytes it stored
  through a buffer argument, a \<open>size_t\<close> and a name it stored, the kind of a directory
  entry, the \<open>errno\<close> it would set, the bonds an enumeration visits and the ready bits of
  a poll. A caller only looks at the fields its call defines.
\<close>

record reply =
  r_rc :: int
  r_data :: "byte list"
  r_size :: u32
  r_name :: cstr
  r_isdir :: bool
  r_errno :: int
  r_bonds :: "bt_addr list"
  r_revents :: "nat list"

definition reply_rc :: "int \<Rightarrow> reply" where
  "reply_rc n = \<lparr>r_rc = n, r_data = [], r_size = 0, r_name = [], r_isdir = False,
     r_errno = 0, r_bonds = [], r_revents = []\<rparr>"

type_synonym event = "call \<times> reply"
type_synonym env = "event list \<Rightarrow> call \<Rightarrow> reply"

section \<open>The state every component extends\<close>

record io =
  trace :: "event list"
  errno :: int

definition ext :: "env \<Rightarrow> call \<Rightarrow> ('a io_scheme, reply) state" where
  "ext env c = State (\<lambda>s. let r = env (trace s) c in (r, s\<lparr>trace := trace s @ [(c, r)]\<rparr>))"

text \<open>A POSIX call also sets \<open>errno\<close>, but only when it fails.\<close>

definition ext_posix :: "env \<Rightarrow> call \<Rightarrow> ('a io_scheme, reply) state" where
  "ext_posix env c = State (\<lambda>s. let r = env (trace s) c in
     (r, s\<lparr>trace := trace s @ [(c, r)],
           errno := (if r_rc r < 0 then r_errno r else errno s)\<rparr>))"

definition get_field :: "('s \<Rightarrow> 'a) \<Rightarrow> ('s, 'a) state" where
  "get_field f = State (\<lambda>s. (f s, s))"

definition modify :: "('s \<Rightarrow> 's) \<Rightarrow> ('s, unit) state" where
  "modify f = State (\<lambda>s. ((), f s))"

text \<open>
  \<open>answers env tr c r\<close>: after the history \<open>tr\<close> the platform answers the call \<open>c\<close> with
  \<open>r\<close>. The symbolic rules keep it folded.
\<close>

definition answers :: "env \<Rightarrow> event list \<Rightarrow> call \<Rightarrow> reply \<Rightarrow> bool" where
  "answers env tr c r \<longleftrightarrow> r = env tr c"

lemma run_ext_iff [run_iff]:
  "run_state (ext env c) s = (r, t) \<longleftrightarrow>
     answers env (trace s) c r \<and> t = s\<lparr>trace := trace s @ [(c, r)]\<rparr>"
  by (auto simp: ext_def answers_def Let_def)

lemma run_ext_posix_iff [run_iff]:
  "run_state (ext_posix env c) s = (r, t) \<longleftrightarrow>
     answers env (trace s) c r \<and>
     t = s\<lparr>trace := trace s @ [(c, r)],
           errno := (if r_rc r < 0 then r_errno r else errno s)\<rparr>"
  by (auto simp: ext_posix_def answers_def Let_def)

lemma run_get_field_iff [run_iff]:
  "run_state (get_field f) s = (x, t) \<longleftrightarrow> x = f s \<and> t = s"
  by (auto simp: get_field_def)

lemma run_modify_iff [run_iff]:
  "run_state (modify f) s = (x, t) \<longleftrightarrow> t = f s"
  by (auto simp: modify_def)

lemma run_ext [run_eval]:
  "run_state (ext env c) s = (env (trace s) c, s\<lparr>trace := trace s @ [(c, env (trace s) c)]\<rparr>)"
  by (simp add: ext_def Let_def)

lemma run_ext_posix [run_eval]:
  "run_state (ext_posix env c) s =
     (env (trace s) c,
      s\<lparr>trace := trace s @ [(c, env (trace s) c)],
        errno := (if r_rc (env (trace s) c) < 0 then r_errno (env (trace s) c) else errno s)\<rparr>)"
  by (simp add: ext_posix_def Let_def)

lemma run_get_field [run_eval]: "run_state (get_field f) s = (f s, s)"
  by (simp add: get_field_def)

lemma run_modify [run_eval]: "run_state (modify f) s = ((), f s)"
  by (simp add: modify_def)

lemma preserves_ext [pres_rules]:
  "(\<And>s r. J s \<Longrightarrow> J (s\<lparr>trace := trace s @ [(c, r)]\<rparr>)) \<Longrightarrow> preserves J (ext env c)"
  by (auto simp: preserves_def run_iff)

lemma preserves_answer:
  "(\<And>s. J s \<Longrightarrow> J (s\<lparr>trace := trace s @ [(c, env (trace s) c)]\<rparr>)) \<Longrightarrow> preserves J (ext env c)"
  by (simp add: preserves_def run_iff answers_def)

lemma preserves_answer_posix:
  "(\<And>s e. J s \<Longrightarrow> J (s\<lparr>trace := trace s @ [(c, env (trace s) c)], errno := e\<rparr>)) \<Longrightarrow> preserves J (ext_posix env c)"
  by (simp add: preserves_def run_iff answers_def)

lemma preserves_ext_posix [pres_rules]:
  "(\<And>s r e. J s \<Longrightarrow> J (s\<lparr>trace := trace s @ [(c, r)], errno := e\<rparr>)) \<Longrightarrow> preserves J (ext_posix env c)"
  by (auto simp: preserves_def run_iff)

lemma preserves_get_field [pres_rules]: "preserves J (get_field f)"
  by (auto simp: preserves_def run_iff)

lemma preserves_modify [pres_rules]: "(\<And>s. J s \<Longrightarrow> J (f s)) \<Longrightarrow> preserves J (modify f)"
  by (auto simp: preserves_def run_iff)

lemmas answer_rules = preserves_answer preserves_answer_posix preserves_get_field preserves_modify flow_rules

lemma commutes_get_field [comm_rules]: "(\<And>s. g (f s) = g s) \<Longrightarrow> commutes f (get_field g)"
  by (simp add: commutes_def run_get_field)

lemma commutes_modify [comm_rules]: "(\<And>s. g (f s) = f (g s)) \<Longrightarrow> commutes f (modify g)"
  by (simp add: commutes_def run_modify)

lemma commutes_ext [comm_rules]:
  "(\<And>s. trace (f s) = trace s) \<Longrightarrow> (\<And>s tr. (f s)\<lparr>trace := tr\<rparr> = f (s\<lparr>trace := tr\<rparr>)) \<Longrightarrow> commutes f (ext env c)"
  by (simp add: commutes_def run_ext)

text \<open>The value a program returns and the state it ends in.\<close>

definition result :: "('s, 'a) state \<Rightarrow> 's \<Rightarrow> 'a" where
  "result m s = fst (run_state m s)"

definition final :: "('s, 'a) state \<Rightarrow> 's \<Rightarrow> 's" where
  "final m s = snd (run_state m s)"

lemma run_result: "run_state m s = (result m s, final m s)"
  by (simp add: result_def final_def)

lemma run_pair: "run_state m s = ((fst (result m s), snd (result m s)), final m s)"
  by (simp add: run_result)

section \<open>Resources\<close>

text \<open>
  Several platform calls come in pairs: one hands out a resource, another gives it back.
  A resource is described by the weight of each event; what a trace still holds is the
  sum of the weights.
\<close>

locale resource =
  fixes weight :: "event \<Rightarrow> int"
    and held :: "event list \<Rightarrow> int"
  assumes held_sum: "held tr = sum_list (map weight tr)"
begin

lemma held_Nil [simp]: "held [] = 0"
  by (simp add: held_sum)

lemma held_append [simp]: "held (xs @ ys) = held xs + held ys"
  by (simp add: held_sum)

lemma held_single [simp]: "held [e] = weight e"
  by (simp add: held_sum)

lemma held_Cons [simp]: "held (e # es) = weight e + held es"
  by (simp add: held_sum)

end

fun file_weight :: "event \<Rightarrow> int" where
  "file_weight (Fs (FsOpen p f), r) = (if r_rc r < 0 then 0 else 1)"
| "file_weight (Fs FsClose, r) = - 1"
| "file_weight _ = 0"

fun area_weight :: "event \<Rightarrow> int" where
  "area_weight (Flash (FlashAreaOpen i), r) = (if r_rc r < 0 then 0 else 1)"
| "area_weight (Flash FlashAreaClose, r) = - 1"
| "area_weight _ = 0"

fun heap_weight :: "event \<Rightarrow> int" where
  "heap_weight (Kern (KMalloc n), r) = (if r_rc r = 0 then 0 else 1)"
| "heap_weight (Kern KFree, r) = - 1"
| "heap_weight _ = 0"

fun hash_weight :: "event \<Rightarrow> int" where
  "hash_weight (Psa PsaHashSetupSha256, r) = (if r_rc r = 0 then 1 else 0)"
| "hash_weight (Psa PsaHashFinish, r) = (if r_rc r = 0 then - 1 else 0)"
| "hash_weight (Psa PsaHashAbort, r) = - 1"
| "hash_weight _ = 0"

fun dir_weight :: "event \<Rightarrow> int" where
  "dir_weight (Fs (FsOpendir p), r) = (if r_rc r = 0 then 1 else 0)"
| "dir_weight (Fs FsClosedir, r) = - 1"
| "dir_weight _ = 0"

fun socket_weight :: "event \<Rightarrow> int" where
  "socket_weight (Net (SocketTcp f), r) = (if r_rc r < 0 then 0 else 1)"
| "socket_weight (Net (WebsocketConnect s h u n), r) = (if r_rc r < 0 then 0 else 1)"
| "socket_weight (Net (SocketClose s), r) = - 1"
| "socket_weight _ = 0"

fun addrinfo_weight :: "event \<Rightarrow> int" where
  "addrinfo_weight (Net (GetAddrInfo h p), r) = (if r_rc r = 0 then 1 else 0)"
| "addrinfo_weight (Net FreeAddrInfo, r) = - 1"
| "addrinfo_weight _ = 0"

text \<open>
  What a trace holds: open files and flash areas, heap blocks, active hash operations,
  open directories, and open sockets (a websocket is a descriptor of its own on top of
  the TCP socket it was made from).
\<close>

definition open_files :: "event list \<Rightarrow> int" where
  "open_files tr = sum_list (map file_weight tr)"

definition open_areas :: "event list \<Rightarrow> int" where
  "open_areas tr = sum_list (map area_weight tr)"

definition heap_blocks :: "event list \<Rightarrow> int" where
  "heap_blocks tr = sum_list (map heap_weight tr)"

definition active_hashes :: "event list \<Rightarrow> int" where
  "active_hashes tr = sum_list (map hash_weight tr)"

definition open_dirs :: "event list \<Rightarrow> int" where
  "open_dirs tr = sum_list (map dir_weight tr)"

definition open_sockets :: "event list \<Rightarrow> int" where
  "open_sockets tr = sum_list (map socket_weight tr)"

definition addrinfos :: "event list \<Rightarrow> int" where
  "addrinfos tr = sum_list (map addrinfo_weight tr)"

interpretation files: resource file_weight open_files
  by unfold_locales (simp add: open_files_def)

interpretation areas: resource area_weight open_areas
  by unfold_locales (simp add: open_areas_def)

interpretation heap: resource heap_weight heap_blocks
  by unfold_locales (simp add: heap_blocks_def)

interpretation hashes: resource hash_weight active_hashes
  by unfold_locales (simp add: active_hashes_def)

interpretation dirs: resource dir_weight open_dirs
  by unfold_locales (simp add: open_dirs_def)

interpretation sockets: resource socket_weight open_sockets
  by unfold_locales (simp add: open_sockets_def)

interpretation addrs: resource addrinfo_weight addrinfos
  by unfold_locales (simp add: addrinfos_def)

text \<open>
  \<open>same_resources\<close>: what one trace holds, the other holds too. A function that returns
  with the resources it was called with leaks nothing and frees nothing twice.
\<close>

definition same_resources :: "event list \<Rightarrow> event list \<Rightarrow> bool" where
  "same_resources tr tr' \<longleftrightarrow>
     open_files tr' = open_files tr \<and> open_areas tr' = open_areas tr \<and>
     heap_blocks tr' = heap_blocks tr \<and> active_hashes tr' = active_hashes tr \<and>
     open_dirs tr' = open_dirs tr \<and> open_sockets tr' = open_sockets tr"

lemma same_resources_refl [simp]: "same_resources tr tr"
  by (simp add: same_resources_def)

lemma same_resources_trans:
  "same_resources a b \<Longrightarrow> same_resources b c \<Longrightarrow> same_resources a c"
  by (simp add: same_resources_def)

section \<open>Calls that failed\<close>

text \<open>
  The calls of a kind that a trace shows to have failed: a statement about an execution in
  which none did holds for every platform. A write that takes less than it was given counts.
\<close>

fun fails :: "event \<Rightarrow> bool" where
  "fails (Fs (FsOpen p f), r) = (r_rc r < 0)"
| "fails (Fs (FsRead n), r) = (r_rc r < 0)"
| "fails (Fs (FsWrite d), r) = (r_rc r \<noteq> int (length d))"
| "fails (Psa c, r) = (r_rc r \<noteq> 0)"
| "fails (Net (GetAddrInfo h p), r) = (r_rc r \<noteq> 0)"
| "fails (Net (SocketTcp f), r) = (r_rc r < 0)"
| "fails (Net (Connect k a), r) = (r_rc r < 0)"
| "fails (Bt (BtLeAdvStart p a d), r) = (r_rc r \<noteq> 0)"
| "fails (Bt BtLeAdvStop, r) = (r_rc r \<noteq> 0)"
| "fails _ = False"

definition failed :: "(call \<Rightarrow> bool) \<Rightarrow> event list \<Rightarrow> nat" where
  "failed kind tr = length (filter (\<lambda>e. kind (fst e) \<and> fails e) tr)"

lemma failed_append [simp]: "failed kind (xs @ ys) = failed kind xs + failed kind ys"
  by (simp add: failed_def)

lemma failed_Cons [simp]:
  "failed kind (e # es) = (if kind (fst e) \<and> fails e then Suc (failed kind es) else failed kind es)"
  by (simp add: failed_def)

lemma failed_Nil [simp]: "failed kind [] = 0"
  by (simp add: failed_def)

text \<open>The kinds: the network, advertising, moving a file over the network, hashing one.\<close>

fun net_kind :: "call \<Rightarrow> bool" where
  "net_kind (Net c) = True"
| "net_kind _ = False"

fun bt_kind :: "call \<Rightarrow> bool" where
  "bt_kind (Bt c) = True"
| "bt_kind _ = False"

fun transfer_kind :: "call \<Rightarrow> bool" where
  "transfer_kind (Net c) = True"
| "transfer_kind (Fs (FsWrite d)) = True"
| "transfer_kind _ = False"

fun hash_kind :: "call \<Rightarrow> bool" where
  "hash_kind (Psa c) = True"
| "hash_kind (Fs (FsOpen p f)) = (f = [FS_O_READ])"
| "hash_kind (Fs (FsRead n)) = True"
| "hash_kind _ = False"

section \<open>Files as byte sequences\<close>

text \<open>
  The position of the open file: opening resets it, a read advances it by the number of
  bytes it returned.
\<close>

fun pos_after :: "nat \<Rightarrow> event \<Rightarrow> nat" where
  "pos_after p (Fs (FsOpen f fl), r) = (if r_rc r < 0 then p else 0)"
| "pos_after p (Fs (FsRead n), r) = p + nat (r_rc r)"
| "pos_after p _ = p"

definition read_pos :: "event list \<Rightarrow> nat" where
  "read_pos tr = foldl pos_after 0 tr"

lemma read_pos_append [simp]: "read_pos (tr @ es) = foldl pos_after (read_pos tr) es"
  by (simp add: read_pos_def)

text \<open>
  \<open>file_content env bs\<close>: the file being read holds the bytes \<open>bs\<close>. A read of \<open>n\<close> bytes
  either fails or returns some of the bytes at the position, at most \<open>n\<close> and, before the
  end of the file, at least one.
\<close>

definition read_reply :: "byte list \<Rightarrow> nat \<Rightarrow> nat \<Rightarrow> reply \<Rightarrow> bool" where
  "read_reply bs p n r \<longleftrightarrow>
     r_rc r < 0 \<or>
     (\<exists>k \<le> n. p + k \<le> length bs \<and> (0 < n \<and> p < length bs \<longrightarrow> 0 < k) \<and>
        r_rc r = int k \<and> r_data r = take k (drop p bs))"

definition file_content :: "env \<Rightarrow> byte list \<Rightarrow> bool" where
  "file_content env bs \<longleftrightarrow>
     (\<forall>tr n. read_pos tr \<le> length bs \<longrightarrow>
        read_reply bs (read_pos tr) (unat n) (env tr (Fs (FsRead n))))"

lemma file_content_read:
  assumes "file_content env bs" and "read_pos tr = p" and "p \<le> length bs"
    and "answers env tr (Fs (FsRead n)) r" and "0 \<le> r_rc r"
  shows "\<exists>k \<le> unat n. p + k \<le> length bs \<and> (0 < unat n \<and> p < length bs \<longrightarrow> 0 < k) \<and>
     r_rc r = int k \<and> r_data r = take k (drop p bs)"
proof -
  from assms(1-4) have "read_reply bs p (unat n) r"
    by (auto simp: file_content_def answers_def)
  with assms(5) show ?thesis
    by (auto simp: read_reply_def)
qed

text \<open>
  The same promise from one point of an execution on, as long as the file stays open and
  nothing but reads is done with it.
\<close>

fun keeps_open :: "event \<Rightarrow> bool" where
  "keeps_open (Fs (FsRead n), r) = True"
| "keeps_open (Fs c, r) = False"
| "keeps_open _ = True"

definition readable :: "env \<Rightarrow> byte list \<Rightarrow> event list \<Rightarrow> bool" where
  "readable env bs tr \<longleftrightarrow>
     (\<forall>es n. list_all keeps_open es \<and> read_pos (tr @ es) \<le> length bs \<longrightarrow>
        read_reply bs (read_pos (tr @ es)) (unat n) (env (tr @ es) (Fs (FsRead n))))"

lemma file_content_readable: "file_content env bs \<Longrightarrow> readable env bs tr"
  by (simp add: file_content_def readable_def del: read_pos_append)

lemma readable_steps: "readable env bs tr \<Longrightarrow> list_all keeps_open es \<Longrightarrow> readable env bs (tr @ es)"
  unfolding readable_def by (metis append.assoc list_all_append)

lemma readable_read:
  assumes "readable env bs tr" and "read_pos tr = p" and "p \<le> length bs"
    and "answers env tr (Fs (FsRead n)) r" and "0 \<le> r_rc r"
  shows "\<exists>k \<le> unat n. p + k \<le> length bs \<and> (0 < unat n \<and> p < length bs \<longrightarrow> 0 < k) \<and>
     r_rc r = int k \<and> r_data r = take k (drop p bs)"
proof -
  from assms(1) have "read_reply bs p (unat n) r"
    unfolding readable_def using assms(2-4) by (auto simp: answers_def dest!: spec [of _ "[]"])
  with assms(5) show ?thesis
    by (auto simp: read_reply_def)
qed

lemma file_content_cong:
  "(\<And>tr n. env tr (Fs (FsRead n)) = env' tr (Fs (FsRead n)))
    \<Longrightarrow> file_content env bs = file_content env' bs"
  by (simp add: file_content_def)

text \<open>
  A weaker promise, enough for memory safety: a read never claims more bytes than were
  asked for.
\<close>

definition reads_bounded :: "env \<Rightarrow> bool" where
  "reads_bounded env \<longleftrightarrow> (\<forall>tr n. r_rc (env tr (Fs (FsRead n))) \<le> int (unat n))"

section \<open>NOR flash\<close>

text \<open>
  Erasing a flash range sets every bit of it; programming can only clear bits. A byte
  reads back as it was written exactly when it was erased before.
\<close>

fun flash_after :: "(nat \<Rightarrow> byte) \<Rightarrow> event \<Rightarrow> (nat \<Rightarrow> byte)" where
  "flash_after f (Flash (FlashAreaErase off n), r) =
     (if r_rc r < 0 then f
      else (\<lambda>i. if unat off \<le> i \<and> i < unat off + unat n then 255 else f i))"
| "flash_after f (Flash (FlashAreaWrite off d), r) =
     (if r_rc r < 0 then f
      else (\<lambda>i. if unat off \<le> i \<and> i < unat off + length d
                then and (f i) (d ! (i - unat off)) else f i))"
| "flash_after f _ = f"

definition flash_cells :: "(nat \<Rightarrow> byte) \<Rightarrow> event list \<Rightarrow> (nat \<Rightarrow> byte)" where
  "flash_cells f tr = foldl flash_after f tr"

lemma flash_cells_append [simp]:
  "flash_cells f (tr @ es) = flash_cells (flash_cells f tr) es"
  by (simp add: flash_cells_def)

lemma flash_cells_Nil [simp]: "flash_cells f [] = f"
  by (simp add: flash_cells_def)

lemma flash_cells_Cons [simp]: "flash_cells f (e # es) = flash_cells (flash_after f e) es"
  by (simp add: flash_cells_def)

lemma and_255_byte [simp]: "and (255 :: byte) d = d" "and d (255 :: byte) = d"
proof -
  have "(255 :: byte) = - 1" by simp
  then show "and (255 :: byte) d = d" "and d (255 :: byte) = d"
    by (simp_all only: and.left_neutral and.right_neutral)
qed


section \<open>A concrete platform\<close>

text \<open>
  A platform on which every call succeeds, whose files hold \<open>bs\<close> and whose descriptors
  are 3; \<open>sim_over\<close> replaces its reply to the calls a list names. They make the
  hypotheses on environments concrete in the witnesses.
\<close>

definition sim_env :: "byte list \<Rightarrow> env" where
  "sim_env bs tr c = (case c of
     Fs (FsRead n) \<Rightarrow>
       (let d = take (unat n) (drop (read_pos tr) bs)
        in (reply_rc (int (length d)))\<lparr>r_data := d\<rparr>)
   | Fs (FsStat p) \<Rightarrow> (reply_rc 0)\<lparr>r_size := of_nat (length bs)\<rparr>
   | Fs (FsWrite d) \<Rightarrow> reply_rc (int (length d))
   | Kern (KMalloc n) \<Rightarrow> reply_rc 1
   | Net (SocketTcp f) \<Rightarrow> reply_rc 3
   | Net (WebsocketConnect s h u n) \<Rightarrow> reply_rc 4
   | _ \<Rightarrow> reply_rc 0)"

definition sim_over :: "(call \<times> reply) list \<Rightarrow> env \<Rightarrow> env" where
  "sim_over ov env tr c = (case map_of ov c of Some r \<Rightarrow> r | None \<Rightarrow> env tr c)"

definition io0 :: io where
  "io0 = \<lparr>trace = [], errno = 0\<rparr>"

lemma sim_env_read:
  "r_rc (sim_env bs tr (Fs (FsRead n))) = int (length (take (unat n) (drop (read_pos tr) bs)))"
  "r_data (sim_env bs tr (Fs (FsRead n))) = take (unat n) (drop (read_pos tr) bs)"
  by (simp_all add: sim_env_def Let_def reply_rc_def)

lemma sim_env_content: "file_content (sim_env bs) bs"
  unfolding file_content_def read_reply_def
proof (intro allI impI disjI2)
  fix tr and n :: u32
  assume "read_pos tr \<le> length bs"
  then show "\<exists>k \<le> unat n. read_pos tr + k \<le> length bs \<and>
      (0 < unat n \<and> read_pos tr < length bs \<longrightarrow> 0 < k) \<and>
      r_rc (sim_env bs tr (Fs (FsRead n))) = int k \<and>
      r_data (sim_env bs tr (Fs (FsRead n))) = take k (drop (read_pos tr) bs)"
    by (intro exI [of _ "min (unat n) (length bs - read_pos tr)"])
      (auto simp: sim_env_read min_def)
qed

lemma sim_env_bounded: "reads_bounded (sim_env bs)"
  unfolding reads_bounded_def sim_env_read
  by (simp only: of_nat_le_iff length_take min.cobounded2 simp_thms)


lemma sim_env_stat: "r_size (sim_env bs tr (Fs (FsStat p))) = of_nat (length bs)"
  by (simp add: sim_env_def reply_rc_def)

end
