(* ===== verification/CString.thy ===== *)
theory CString
  imports Prelude
begin

text \<open>
  The C library functions on strings that the sources call, on the character sequences
  before the terminating NUL: comparison, bounded formatting, decimal and hexadecimal
  conversion. \<open>long\<close>, \<open>unsigned long\<close> and \<open>int\<close> are 32 bits wide on the target.
\<close>

section \<open>Comparison\<close>

text \<open>\<open>strcmp(a, b) == 0\<close> and \<open>strncmp(a, b, n) == 0\<close>.\<close>

definition strcmp_eq :: "cstr \<Rightarrow> cstr \<Rightarrow> bool" where
  "strcmp_eq a b \<longleftrightarrow> a = b"

definition strncmp_eq :: "cstr \<Rightarrow> cstr \<Rightarrow> nat \<Rightarrow> bool" where
  "strncmp_eq a b n \<longleftrightarrow> take n a = take n b"

lemma strncmp_eq_prefix:
  "length b = n \<Longrightarrow> strncmp_eq a b n \<longleftrightarrow> (\<exists>rest. a = b @ rest)"
  unfolding strncmp_eq_def by (metis append_eq_conv_conj append_take_drop_id take_all_iff order_refl)

lemma strncmp_eq_short:
  "length b < n \<Longrightarrow> strncmp_eq a b n \<longleftrightarrow> a = b"
  unfolding strncmp_eq_def by (metis length_take linorder_not_less min_def nat_less_le take_all_iff)

section \<open>Formatting\<close>

text \<open>\<open>snprintf(buf, n, "%s/%s", a, b)\<close> with \<open>n > 0\<close>: the string left in the buffer.\<close>

definition snprintf_path :: "nat \<Rightarrow> cstr \<Rightarrow> cstr \<Rightarrow> cstr" where
  "snprintf_path n a b = take (n - 1) (a @ ''/'' @ b)"

definition hex_digit :: "nat \<Rightarrow> char" where
  "hex_digit n = ''0123456789abcdef'' ! n"

text \<open>\<open>"%02x"\<close> of a byte.\<close>

definition hex2 :: "byte \<Rightarrow> cstr" where
  "hex2 b = [hex_digit (unat b div 16), hex_digit (unat b mod 16)]"

lemma length_hex2 [simp]: "length (hex2 b) = 2"
  by (simp add: hex2_def)

section \<open>Conversion\<close>

text \<open>The value of a digit character in bases up to 16.\<close>

definition digit_val :: "char \<Rightarrow> nat option" where
  "digit_val c = (let k = of_char c :: nat in
     if 48 \<le> k \<and> k \<le> 57 then Some (k - 48)
     else if 97 \<le> k \<and> k \<le> 102 then Some (k - 87)
     else if 65 \<le> k \<and> k \<le> 70 then Some (k - 55)
     else None)"

definition is_digit :: "nat \<Rightarrow> char \<Rightarrow> bool" where
  "is_digit base c = (case digit_val c of Some d \<Rightarrow> d < base | None \<Rightarrow> False)"

fun digits_val :: "nat \<Rightarrow> nat \<Rightarrow> cstr \<Rightarrow> nat" where
  "digits_val base acc [] = acc"
| "digits_val base acc (c # cs) =
     (if is_digit base c then digits_val base (acc * base + the (digit_val c)) cs else acc)"

definition is_space :: "char \<Rightarrow> bool" where
  "is_space c = (let k = of_char c :: nat in k = 32 \<or> (9 \<le> k \<and> k \<le> 13))"

text \<open>The optional \<open>0x\<close> of base 16 counts only in front of a hexadecimal digit.\<close>

definition skip_0x :: "nat \<Rightarrow> cstr \<Rightarrow> cstr" where
  "skip_0x base s = (case s of
     a # b # c # cs \<Rightarrow>
       if base = 16 \<and> a = CHR ''0'' \<and> (b = CHR ''x'' \<or> b = CHR ''X'') \<and> is_digit 16 c
       then c # cs else s
   | _ \<Rightarrow> s)"

text \<open>Sign and magnitude of the number a string starts with.\<close>

definition scan_number :: "nat \<Rightarrow> cstr \<Rightarrow> bool \<times> nat" where
  "scan_number base s = (case dropWhile is_space s of
     [] \<Rightarrow> (False, 0)
   | c # cs \<Rightarrow>
       if c = CHR ''-'' then (True, digits_val base 0 (skip_0x base cs))
       else if c = CHR ''+'' then (False, digits_val base 0 (skip_0x base cs))
       else (False, digits_val base 0 (skip_0x base (c # cs))))"

definition strtol :: "cstr \<Rightarrow> nat \<Rightarrow> int" where
  "strtol s base = (case scan_number base s of
     (neg, n) \<Rightarrow> if neg then max (- (2 ^ 31)) (- int n) else min (2 ^ 31 - 1) (int n))"

text \<open>\<open>strtoul\<close> negates a number with a minus sign modulo \<open>2^32\<close> and saturates.\<close>

definition strtoul :: "cstr \<Rightarrow> nat \<Rightarrow> u32" where
  "strtoul s base = (case scan_number base s of
     (neg, n) \<Rightarrow> if 2 ^ 32 \<le> int n then - 1 else if neg then - of_nat n else of_nat n)"

definition atoi :: "cstr \<Rightarrow> int" where
  "atoi s = strtol s 10"

lemma strtol_range: "- (2 ^ 31) \<le> strtol s base \<and> strtol s base < 2 ^ 31"
  by (auto simp: strtol_def split: prod.splits)

section \<open>Round trips\<close>

text \<open>The sixteen digits, one by one.\<close>

definition digit_ok :: "nat \<Rightarrow> bool" where
  "digit_ok n = (let c = hex_digit n in digit_val c = Some n \<and> \<not> is_space c \<and>
     c \<notin> {CHR ''-'', CHR ''+'', CHR ''x'', CHR ''X'', CHR 0x00})"

lemma all_digits_ok: "list_all digit_ok [0..<16]"
  by code_simp

lemma hex_digit_ok: "n < 16 \<Longrightarrow> digit_ok n"
  using all_digits_ok by (simp only: list_all_iff set_upt atLeastLessThan_iff) simp

lemma digit_val_hex_digit [simp]: "n < 16 \<Longrightarrow> digit_val (hex_digit n) = Some n"
  by (drule hex_digit_ok) (simp add: digit_ok_def Let_def)

lemma is_digit_hex_digit [simp]: "n < 16 \<Longrightarrow> is_digit 16 (hex_digit n)"
  by (simp add: is_digit_def)

lemma hex_digit_plain:
  "n < 16 \<Longrightarrow> hex_digit n \<noteq> CHR ''-'' \<and> hex_digit n \<noteq> CHR ''+'' \<and> \<not> is_space (hex_digit n)"
  by (drule hex_digit_ok) (simp add: digit_ok_def Let_def)

lemma hex_digit_not_x:
  "n < 16 \<Longrightarrow> hex_digit n \<noteq> CHR ''x'' \<and> hex_digit n \<noteq> CHR ''X''"
  by (drule hex_digit_ok) (simp add: digit_ok_def Let_def)

lemma hex_digit_not_NUL: "n < 16 \<Longrightarrow> hex_digit n \<noteq> CHR 0x00"
  by (drule hex_digit_ok) (simp add: digit_ok_def Let_def)

lemma unat_byte_lt: "unat (b :: byte) < 256"
  using unsigned_less [of b, where 'a = nat] by simp

lemma unat_byte_div: "unat (b :: byte) div 16 < 16"
  using unat_byte_lt [of b] by (simp add: less_mult_imp_div_less)

lemma hex2_not_NUL: "CHR 0x00 \<notin> set (hex2 b)"
  using hex_digit_not_NUL [OF unat_byte_div [of b]] hex_digit_not_NUL [of "unat b mod 16"]
  by (auto simp: hex2_def)

lemma digits_val_hex2 [simp]: "digits_val 16 0 (hex2 b) = unat b"
  using unat_byte_div [of b] by (simp add: hex2_def)

text \<open>
  A byte printed with \<open>"%02x"\<close> reads back with \<open>strtol\<close> in base 16, with or without a
  leading \<open>0x\<close>.
\<close>

lemma strtol_hex2: "strtol (hex2 b) 16 = int (unat b)"
proof -
  have "scan_number 16 (hex2 b) = (False, unat b)"
    using digits_val_hex2 [of b] hex_digit_plain [OF unat_byte_div [of b]]
    by (auto simp: scan_number_def skip_0x_def hex2_def)
  then show ?thesis
    using unat_byte_lt [of b] by (simp add: strtol_def min_def)
qed

lemma strtol_0x_hex2: "strtol (''0x'' @ hex2 b) 16 = int (unat b)"
proof -
  have "scan_number 16 (''0x'' @ hex2 b) = (False, unat b)"
    using digits_val_hex2 [of b] is_digit_hex_digit [OF unat_byte_div [of b]]
    by (simp add: scan_number_def skip_0x_def hex2_def is_space_def)
  then show ?thesis
    using unat_byte_lt [of b] by (simp add: strtol_def min_def)
qed

end
