(* ===== verification/Fatfs.thy ===== *)
theory Fatfs
  imports Platform CString
begin

text \<open>
  \<open>src/fatfs.c\<close>: mounting the SD card, listing a directory, and creating a sample file and
  directory in an empty file system. Paths are built in a buffer of \<open>MAX_PATH\<close> characters;
  a store behind its end is the result \<open>None\<close>.
\<close>

section \<open>Definitions\<close>

definition disk_mount_pt :: cstr where
  "disk_mount_pt = ''/SD:''"

definition fatfs_get_root_path :: cstr where
  "fatfs_get_root_path = disk_mount_pt"

definition MAX_PATH :: nat where
  "MAX_PATH = 128"

definition SOME_FILE_NAME :: cstr where
  "SOME_FILE_NAME = ''some.dat''"

definition SOME_DIR_NAME :: cstr where
  "SOME_DIR_NAME = ''some''"

text \<open>\<open>sizeof\<close> of a string literal counts its NUL.\<close>

definition SOME_REQUIRED_LEN :: nat where
  "SOME_REQUIRED_LEN = max (length SOME_FILE_NAME + 1) (length SOME_DIR_NAME + 1)"

text \<open>
  \<open>lsdir\<close>: the local of the loop is the entry count. The loop leaves with \<open>Inl (res, count)\<close>.
\<close>

definition lsdir_body :: "env \<Rightarrow> int \<Rightarrow> ('a io_scheme, (int \<times> int) + int) state" where
  "lsdir_body env count = do {
     r \<leftarrow> ext env (Fs FsReaddir);
     (if r_rc r \<noteq> 0 \<or> r_name r = [] then State_Monad.return (Inl (r_rc r, count))
      else State_Monad.return (Inr (count + 1)))
   }"

definition lsdir :: "env \<Rightarrow> nat \<Rightarrow> cstr \<Rightarrow> ('a io_scheme, int option) state" where
  "lsdir env fuel path = do {
     d \<leftarrow> ext env (Fs (FsOpendir path));
     (if r_rc d \<noteq> 0 then State_Monad.return (Some (r_rc d))
      else do {
        l \<leftarrow> loop_fuel fuel (lsdir_body env) 0;
        (case l of
           None \<Rightarrow> State_Monad.return None
         | Some v \<Rightarrow> do {
             _ \<leftarrow> ext env (Fs FsClosedir);
             State_Monad.return (Some (if fst v = 0 then snd v else fst v))
           })
      })
   }"

text \<open>
  \<open>strcat\<close> in a buffer of \<open>MAX_PATH\<close> characters; the NUL needs a place too.
\<close>

definition buf_strcat :: "cstr \<Rightarrow> cstr \<Rightarrow> cstr option" where
  "buf_strcat s t = (if length s + length t < MAX_PATH then Some (s @ t) else None)"

definition create_some_entries :: "env \<Rightarrow> cstr \<Rightarrow> ('a io_scheme, bool option) state" where
  "create_some_entries env base_path =
     (if length base_path \<ge> MAX_PATH - SOME_REQUIRED_LEN then State_Monad.return (Some False)
      else (case buf_strcat base_path ''/'' of
        None \<Rightarrow> State_Monad.return None
      | Some base \<Rightarrow> (case buf_strcat base SOME_FILE_NAME of
          None \<Rightarrow> State_Monad.return None
        | Some file_path \<Rightarrow> do {
            f \<leftarrow> ext env (Fs (FsOpen file_path [FS_O_CREATE]));
            (if r_rc f \<noteq> 0 then State_Monad.return (Some False)
             else do {
               _ \<leftarrow> ext env (Fs FsClose);
               (case buf_strcat base SOME_DIR_NAME of
                  None \<Rightarrow> State_Monad.return None
                | Some dir_path \<Rightarrow> do {
                    _ \<leftarrow> ext env (Fs (FsMkdir dir_path));
                    State_Monad.return (Some True)
                  })
             })
          })))"

text \<open>
  \<open>fatfs_init\<close>: \<open>None\<close> is a listing that is still running or a path that did not fit.
\<close>

definition fatfs_init :: "env \<Rightarrow> nat \<Rightarrow> ('a io_scheme, int option) state" where
  "fatfs_init env fuel = do {
     m \<leftarrow> ext env (Fs (FsMount disk_mount_pt));
     (if r_rc m \<noteq> 0 then State_Monad.return (Some (- 1))
      else do {
        n \<leftarrow> lsdir env fuel disk_mount_pt;
        (case n of
           None \<Rightarrow> State_Monad.return None
         | Some k \<Rightarrow>
             if k = 0 then do {
               c \<leftarrow> create_some_entries env disk_mount_pt;
               (case c of
                  None \<Rightarrow> State_Monad.return None
                | Some ok \<Rightarrow>
                    if ok then do {
                      n2 \<leftarrow> lsdir env fuel disk_mount_pt;
                      State_Monad.return (case n2 of None \<Rightarrow> None | Some _ \<Rightarrow> Some 0)
                    } else State_Monad.return (Some 0))
             } else State_Monad.return (Some 0))
      })
   }"

definition fatfs_fini :: "env \<Rightarrow> ('a io_scheme, unit) state" where
  "fatfs_fini env = do { _ \<leftarrow> ext env (Fs FsUnmount); State_Monad.return () }"

text \<open>\<open>fatfs_dump_disk_info\<close> returns nothing; the model returns the size it logs, if it gets there.\<close>

definition memory_size_mb :: "u32 \<Rightarrow> u32 \<Rightarrow> u32" where
  "memory_size_mb block_count block_size =
     ucast (drop_bit 20 ((ucast block_count :: u64) * ucast block_size))"

definition fatfs_dump_disk_info :: "env \<Rightarrow> ('a io_scheme, u32 option) state" where
  "fatfs_dump_disk_info env = do {
     i \<leftarrow> ext env (Disk DiskCtrlInit);
     (if r_rc i \<noteq> 0 then State_Monad.return None
      else do {
        c \<leftarrow> ext env (Disk DiskGetSectorCount);
        (if r_rc c \<noteq> 0 then State_Monad.return None
         else do {
           z \<leftarrow> ext env (Disk DiskGetSectorSize);
           (if r_rc z \<noteq> 0 then State_Monad.return None
            else do {
              _ \<leftarrow> ext env (Disk DiskCtrlDeinit);
              State_Monad.return (Some (memory_size_mb (r_size c) (r_size z)))
            })
         })
      })
   }"

section \<open>Directories\<close>

text \<open>
  The entry a directory enumeration is at: opening resets it, reading an entry advances
  it. \<open>dir_content env names\<close>: the directory has the entries \<open>names\<close>, delivered in order
  and followed by the empty name.
\<close>

fun dir_after :: "nat \<Rightarrow> event \<Rightarrow> nat" where
  "dir_after p (Fs (FsOpendir d), r) = (if r_rc r = 0 then 0 else p)"
| "dir_after p (Fs FsReaddir, r) = (if r_rc r = 0 then Suc p else p)"
| "dir_after p _ = p"

definition dir_pos :: "event list \<Rightarrow> nat" where
  "dir_pos tr = foldl dir_after 0 tr"

lemma dir_pos_append [simp]: "dir_pos (tr @ es) = foldl dir_after (dir_pos tr) es"
  by (simp add: dir_pos_def)

definition dir_content :: "env \<Rightarrow> cstr list \<Rightarrow> bool" where
  "dir_content env names \<longleftrightarrow> [] \<notin> set names \<and>
     (\<forall>tr. r_rc (env tr (Fs FsReaddir)) = 0 \<and>
        r_name (env tr (Fs FsReaddir)) =
          (if dir_pos tr < length names then names ! dir_pos tr else []))"

lemma dir_content_read:
  assumes "dir_content env names" and "answers env tr (Fs FsReaddir) r"
  shows "r_rc r = 0" and "r_name r = [] \<longleftrightarrow> length names \<le> dir_pos tr"
  using assms by (auto simp: dir_content_def answers_def) (metis nth_mem)

interpretation listing: total_loop "lsdir_body env"
    "\<lambda>count s. dir_content env names \<and> count = int (dir_pos (trace s)) \<and> dir_pos (trace s) \<le> length names"
    "\<lambda>v s. v = (0, int (length names))"
    "\<lambda>_ s. length names - dir_pos (trace s)"
  by unfold_locales (auto simp: lsdir_body_def run_iff dest: dir_content_read)

text \<open>The listing loop touches no resource.\<close>

interpretation listing_frame: loop_contract "lsdir_body env"
    "\<lambda>_ s. same_resources tr0 (trace s)" "\<lambda>_ s. same_resources tr0 (trace s)"
  by unfold_locales (auto simp: lsdir_body_def run_iff same_resources_def)

lemma lsdir_frame:
  assumes "run_state (lsdir env fuel path) s = (Some n, t)"
  shows "same_resources (trace s) (trace t)"
proof -
  have loop: "same_resources (trace u) (trace w)"
    if "run_state (loop_fuel fuel (lsdir_body env) c) u = (Some v, w)" for c u v w
    by (rule listing_frame.partial [OF _ that]) simp
  show ?thesis
    using assms unfolding lsdir_def
    by (auto simp: run_iff same_resources_def dest!: loop)
qed

text \<open>A platform on which every call succeeds and the directory has the entries \<open>names\<close>.\<close>

definition dir_env :: "cstr list \<Rightarrow> env" where
  "dir_env names tr c =
     (if c = Fs FsReaddir
      then (reply_rc 0)\<lparr>r_name := (if dir_pos tr < length names then names ! dir_pos tr else [])\<rparr>
      else reply_rc 0)"

lemma dir_env_content: "[] \<notin> set names \<Longrightarrow> dir_content (dir_env names) names"
  by (simp add: dir_content_def dir_env_def reply_rc_def)

section \<open>Properties\<close>

text \<open>
  listing a directory returns and counts its entries: with any fuel above their
  number \<open>lsdir\<close> returns the number of entries if the directory opens and the error of
  \<open>fs_opendir\<close> if it does not, and it leaves no directory open.
\<close>

theorem lsdir_counts:
  assumes "dir_content env names" and "length names < fuel"
    and "answers env (trace s) (Fs (FsOpendir path)) r"
  shows "\<exists>t. run_state (lsdir env fuel path) s =
      (Some (if r_rc r = 0 then int (length names) else r_rc r), t) \<and>
    same_resources (trace s) (trace t)"
proof -
  from assms(3) have r: "r = env (trace s) (Fs (FsOpendir path))" by (simp add: answers_def)
  have "\<exists>t. run_state (lsdir env fuel path) s =
      (Some (if r_rc r = 0 then int (length names) else r_rc r), t)"
  proof (cases "r_rc r = 0")
    case False
    then show ?thesis by (simp add: lsdir_def run_eval r)
  next
    case True
    then obtain t where "run_state (loop_fuel fuel (lsdir_body env) 0)
        (s\<lparr>trace := trace s @ [(Fs (FsOpendir path), r)]\<rparr>) = (Some (0, int (length names)), t)"
      using listing.total [of env names 0 "s\<lparr>trace := trace s @ [(Fs (FsOpendir path), r)]\<rparr>" fuel]
        assms(1,2) by auto
    with True show ?thesis by (simp add: lsdir_def run_eval r)
  qed
  with lsdir_frame show ?thesis by blast
qed

theorem lsdir_counts_witness:
  "\<exists>t. run_state (lsdir (dir_env [''a'', ''b'']) 3 ''/SD:'') io0 = (Some 2, t) \<and>
     same_resources [] (trace t)"
  using lsdir_counts [OF dir_env_content, of "[''a'', ''b'']" 3 io0 "''/SD:''" "reply_rc 0"]
  by (simp add: answers_def dir_env_def reply_rc_def io0_def)

text \<open>
  the guard of \<open>create_some_entries\<close> is exact. Every base path it lets through fits:
  no store leaves the 128-byte buffer whatever \<open>fs_open\<close> answers, and a path of the
  greatest accepted length fills the buffer to its last byte.
\<close>

theorem create_some_entries_in_bounds:
  "result (create_some_entries env base_path) s \<noteq> None \<and>
   (length base_path = MAX_PATH - SOME_REQUIRED_LEN - 1 \<longleftrightarrow>
    length (base_path @ ''/'' @ SOME_FILE_NAME) + 1 = MAX_PATH)"
  by (auto simp: create_some_entries_def result_def run_eval buf_strcat_def MAX_PATH_def
      SOME_REQUIRED_LEN_def SOME_FILE_NAME_def SOME_DIR_NAME_def)

text \<open>
  Files and directories that a trace creates.
\<close>

fun is_creation :: "event \<Rightarrow> bool" where
  "is_creation (Fs (FsOpen p fl), r) = (FS_O_CREATE \<in> set fl)"
| "is_creation (Fs (FsMkdir p), r) = True"
| "is_creation _ = False"

definition creations :: "event list \<Rightarrow> event list" where
  "creations tr = filter is_creation tr"

lemma creations_append [simp]: "creations (xs @ ys) = creations xs @ creations ys"
  by (simp add: creations_def)

lemma creations_Cons [simp]:
  "creations (e # es) = (if is_creation e then e # creations es else creations es)"
  by (simp add: creations_def)

lemma creations_Nil [simp]: "creations [] = []"
  by (simp add: creations_def)

interpretation listing_creates: loop_contract "lsdir_body env"
    "\<lambda>_ s. creations (trace s) = c0" "\<lambda>_ s. creations (trace s) = c0"
  by unfold_locales (auto simp: lsdir_body_def run_iff)

lemma lsdir_creates:
  assumes "run_state (lsdir env fuel path) s = (n, t)"
  shows "creations (trace t) = creations (trace s)"
proof -
  have some: "creations (trace w) = creations (trace u)"
    if "run_state (loop_fuel fuel (lsdir_body env) c) u = (Some v, w)" for c u v w
    by (rule listing_creates.partial [OF _ that]) simp
  have none: "creations (trace w) = creations (trace u)"
    if "run_state (loop_fuel fuel (lsdir_body env) c) u = (None, w)" for c u w
    using listing_creates.running [OF _ that] by auto
  show ?thesis
    using assms unfolding lsdir_def
    by (auto simp: run_iff dest!: some none)
qed

text \<open>
  C31: mounting never adds anything to a card that holds data. If the card lists at least
  one entry, \<open>fatfs_init\<close> creates neither a file nor a directory.
\<close>

theorem fatfs_init_keeps_data:
  assumes "dir_content env names" and "names \<noteq> []"
    and "run_state (fatfs_init env fuel) s = (r, t)"
  shows "creations (trace t) = creations (trace s)"
proof -
  have listed: "n \<noteq> 0" if "run_state (lsdir env fuel disk_mount_pt) u = (Some n, w)" for u n w
    using that assms(1,2) unfolding lsdir_def
    by (auto simp: run_iff dest!: listing.partial [of env names 0, rotated])
  show ?thesis
    using assms(3) unfolding fatfs_init_def
    by (auto simp: run_iff dest: listed lsdir_creates)
qed

theorem fatfs_init_keeps_data_witness:
  "result (fatfs_init (dir_env [''a'']) 3) io0 = Some 0 \<and>
   creations (trace (final (fatfs_init (dir_env [''a'']) 3) io0)) = []"
proof -
  have "result (fatfs_init (dir_env [''a'']) 3) io0 = Some 0" by code_simp
  then show ?thesis
    using fatfs_init_keeps_data [OF dir_env_content _ run_result, of "[''a'']" 3 io0]
    by (simp add: io0_def)
qed

text \<open>
  the size in megabytes is computed without overflow: it is the product of the two
  32-bit counts divided by \<open>2^20\<close>, for every card below 4 petabytes.
\<close>

theorem memory_size_mb_exact:
  assumes "unat block_count * unat block_size < 2 ^ 52"
  shows "unat (memory_size_mb block_count block_size) = unat block_count * unat block_size div 2 ^ 20"
proof -
  let ?m = "unat block_count * unat block_size"
  have "unat ((ucast block_count :: u64) * ucast block_size) = ?m"
    using assms by (simp add: unat_word_ariths)
  then have "unat (drop_bit 20 ((ucast block_count :: u64) * ucast block_size)) = ?m div 2 ^ 20"
    by (simp add: drop_bit_eq_div unat_div_distrib)
  moreover have "?m div 2 ^ 20 < 2 ^ 32"
    using assms by (simp add: less_mult_imp_div_less)
  ultimately show ?thesis
    by (simp add: memory_size_mb_def unsigned_ucast_eq take_bit_nat_eq_self)
qed

theorem memory_size_mb_exact_witness: "unat (memory_size_mb 62333952 512) = 62333952 * 512 div 2 ^ 20"
  using memory_size_mb_exact [of 62333952 512] by simp

end
