(* ===== verification/Upgrade.thy ===== *)
theory Upgrade
  imports Fatfs
begin

unbundle bit_operations_syntax

text \<open>
  The firmware upgrade of \<open>src/upgrade.c\<close>: choosing the slot to write, copying an image
  file into a flash partition in chunks of 1 KB after erasing as many 4 KB sectors as the
  file needs, requesting a test boot and confirming the running image.

  \<open>PARTITION_ID\<close> is a macro over the generated device tree and is a parameter \<open>part\<close>.
  The copy loop takes fuel; \<open>ota_returns\<close> shows that more fuel than the file is long
  is always enough on a file the read contract describes.
\<close>

section \<open>Definitions\<close>

definition CHUNK_SIZE :: u32 where
  "CHUNK_SIZE = 1024"

definition SLOT0_PART_ID :: "(cstr \<Rightarrow> byte) \<Rightarrow> byte" where
  "SLOT0_PART_ID part = part ''slot0_partition''"

definition SLOT1_PART_ID :: "(cstr \<Rightarrow> byte) \<Rightarrow> byte" where
  "SLOT1_PART_ID part = part ''slot0_partition''"

definition get_upgrade_target_partition_id ::
    "env \<Rightarrow> (cstr \<Rightarrow> byte) \<Rightarrow> ('a io_scheme, byte) state" where
  "get_upgrade_target_partition_id env part = do {
     r \<leftarrow> ext env (Boot BootFetchActiveSlot);
     let active_area_id = word_of_int (r_rc r);
     (if active_area_id = SLOT0_PART_ID part then State_Monad.return (SLOT1_PART_ID part)
      else State_Monad.return (SLOT0_PART_ID part))
   }"

definition erase_size :: "u32 \<Rightarrow> u32" where
  "erase_size file_size = (file_size + 4095) AND NOT 4095"

text \<open>One iteration of the loop of step 6; the local is \<open>write_offset\<close>.\<close>

definition ota_body :: "env \<Rightarrow> u32 \<Rightarrow> u32 \<Rightarrow> ('a io_scheme, int + u32) state" where
  "ota_body env file_size write_offset =
     (if write_offset < file_size then do {
        let bytes_to_read = min CHUNK_SIZE (file_size - write_offset);
        r \<leftarrow> ext env (Fs (FsRead bytes_to_read));
        (if r_rc r < 0 then State_Monad.return (Inl (r_rc r))
         else if r_rc r = 0 then State_Monad.return (Inl 0)
         else do {
           w \<leftarrow> ext env (Flash (FlashAreaWrite write_offset (take (nat (r_rc r)) (r_data r))));
           (if r_rc w < 0 then State_Monad.return (Inl (r_rc w))
            else State_Monad.return (Inr (write_offset + word_of_int (r_rc r))))
         })
      } else State_Monad.return (Inl 0))"

text \<open>Label \<open>cleanup\<close>, with the buffer freed only if it was allocated.\<close>

definition ota_cleanup :: "env \<Rightarrow> bool \<Rightarrow> ('a io_scheme, unit) state" where
  "ota_cleanup env have_buf = do {
     (if have_buf then do { _ \<leftarrow> ext env (Kern KFree); State_Monad.return () }
      else State_Monad.return ());
     _ \<leftarrow> ext env (Fs FsClose);
     _ \<leftarrow> ext env (Flash FlashAreaClose);
     State_Monad.return ()
   }"

text \<open>
  Steps 1 to 5: \<open>Inl rc\<close> is an error return, with what was opened closed again; \<open>Inr n\<close>
  reaches the loop on a file of \<open>n\<close> bytes with the buffer allocated.
\<close>

definition ota_prepare ::
    "env \<Rightarrow> cstr \<Rightarrow> byte \<Rightarrow> ('a io_scheme, int + u32) state" where
  "ota_prepare env file_path partition_id = do {
     st \<leftarrow> ext env (Fs (FsStat file_path));
     (if r_rc st < 0 then State_Monad.return (Inl (r_rc st))
      else if r_isdir st \<or> r_size st = 0 then State_Monad.return (Inl (- EINVAL))
      else do {
        fa \<leftarrow> ext env (Flash (FlashAreaOpen partition_id));
        (if r_rc fa < 0 then State_Monad.return (Inl (r_rc fa))
         else do {
           f \<leftarrow> ext env (Fs (FsOpen file_path [FS_O_READ]));
           (if r_rc f < 0 then do {
              _ \<leftarrow> ext env (Flash FlashAreaClose);
              State_Monad.return (Inl (r_rc f))
            } else do {
              er \<leftarrow> ext env (Flash (FlashAreaErase 0 (erase_size (r_size st))));
              (if r_rc er < 0 then do {
                 _ \<leftarrow> ota_cleanup env False;
                 State_Monad.return (Inl (r_rc er))
               } else do {
                 m \<leftarrow> ext env (Kern (KMalloc CHUNK_SIZE));
                 (if r_rc m = 0 then do {
                    _ \<leftarrow> ota_cleanup env False;
                    State_Monad.return (Inl (- ENOMEM))
                  } else State_Monad.return (Inr (r_size st)))
               })
            })
         })
      })
   }"

definition write_ota_file_to_partition ::
    "env \<Rightarrow> nat \<Rightarrow> cstr \<Rightarrow> byte \<Rightarrow> ('a io_scheme, int option) state" where
  "write_ota_file_to_partition env fuel file_path partition_id = do {
     p \<leftarrow> ota_prepare env file_path partition_id;
     (case p of
        Inl rc \<Rightarrow> State_Monad.return (Some rc)
      | Inr file_size \<Rightarrow> do {
          rc \<leftarrow> loop_fuel fuel (ota_body env file_size) 0;
          (case rc of
             None \<Rightarrow> State_Monad.return None
           | Some v \<Rightarrow> do {
               _ \<leftarrow> ota_cleanup env True;
               State_Monad.return (Some v)
             })
        })
   }"

definition trigger_upgrade :: "env \<Rightarrow> ('a io_scheme, unit) state" where
  "trigger_upgrade env = do {
     r \<leftarrow> ext env (Boot BootRequestUpgradeTest);
     (if r_rc r < 0 then State_Monad.return ()
      else do {
        _ \<leftarrow> ext env (Kern (KSleepMs 100));
        _ \<leftarrow> ext env (Boot SysRebootWarm);
        State_Monad.return ()
      })
   }"

text \<open>\<open>None\<close>: the copy loop is still running; \<open>Some ()\<close>: the function returned (or rebooted).\<close>

definition perform_ota_upgrade_from_file ::
    "env \<Rightarrow> nat \<Rightarrow> (cstr \<Rightarrow> byte) \<Rightarrow> cstr \<Rightarrow> ('a io_scheme, unit option) state" where
  "perform_ota_upgrade_from_file env fuel part bin_file_path = do {
     target \<leftarrow> get_upgrade_target_partition_id env part;
     rc \<leftarrow> write_ota_file_to_partition env fuel bin_file_path target;
     (case rc of
        None \<Rightarrow> State_Monad.return None
      | Some v \<Rightarrow>
          (if v = 0 then do { _ \<leftarrow> trigger_upgrade env; State_Monad.return (Some ()) }
           else State_Monad.return (Some ())))
   }"

text \<open>\<open>full_path\<close> has 128 bytes, NUL included.\<close>

definition cmd_upgrade ::
    "env \<Rightarrow> nat \<Rightarrow> (cstr \<Rightarrow> byte) \<Rightarrow> cstr list \<Rightarrow> ('a io_scheme, int option) state" where
  "cmd_upgrade env fuel part argv = do {
     let image_path = (if length argv \<ge> 2 then argv ! 1 else ''zephyr.bin'');
     r \<leftarrow> perform_ota_upgrade_from_file env fuel part (snprintf_path 128 fatfs_get_root_path image_path);
     State_Monad.return (map_option (\<lambda>_. 0) r)
   }"

definition upgrade_check_image :: "env \<Rightarrow> ('a io_scheme, int) state" where
  "upgrade_check_image env = do {
     ok \<leftarrow> ext env (Boot BootIsImgConfirmed);
     (if r_rc ok \<noteq> 0 then State_Monad.return 0
      else do {
        r \<leftarrow> ext env (Boot BootWriteImgConfirmed);
        (if r_rc r < 0 then State_Monad.return (- 1) else State_Monad.return 0)
      })
   }"

section \<open>The size to erase\<close>

lemma and_not_4095: "unat (x AND NOT (4095 :: u32)) = unat x - unat x mod 4096"
proof -
  have m: "mask 12 = (4095 :: u32)" by (simp add: mask_eq_exp_minus_1)
  have "x AND NOT (mask 12) = push_bit 12 (drop_bit 12 x)"
    by (rule bit_word_eqI) (auto simp: bit_simps)
  also have "\<dots> = x - take_bit 12 x"
    using bits_ident [of 12 x] by (metis add_diff_cancel_right')
  finally have "unat (x AND NOT 4095) = unat (x - take_bit 12 x)"
    by (simp add: m)
  also have "\<dots> = unat x - unat (take_bit 12 x)"
    by (rule unat_sub_le) (simp add: word_le_nat_alt unat_mod_distrib take_bit_eq_mod)
  finally show ?thesis
    by (simp add: unat_mod_distrib take_bit_eq_mod)
qed

text \<open>
  For every file that can be on the medium the erased range covers the file, ends on a
  sector boundary and wastes less than one sector.
\<close>

lemma erase_size_no_wrap:
  assumes "unat n + 4095 < 2 ^ 32"
  shows "unat (erase_size n) = (unat n + 4095) div 4096 * 4096"
proof -
  have "unat (n + 4095) = unat n + 4095"
    using assms unat_add_small [of n 4095] by simp
  then show ?thesis
    unfolding erase_size_def and_not_4095 by (simp add: minus_mod_eq_div_mult)
qed

lemma erase_size_covers:
  assumes "unat n + 4095 < 2 ^ 32"
  shows "unat n \<le> unat (erase_size n)"
proof -
  have "(unat n + 4095) mod 4096 < 4096" by simp
  with div_mult_mod_eq [of "unat n + 4095" 4096] show ?thesis
    unfolding erase_size_no_wrap [OF assms] by linarith
qed


section \<open>The copy loop\<close>

text \<open>
  The file holds \<open>bs\<close>; before each iteration the flash holds its first \<open>off\<close> bytes and is
  still erased behind them.
\<close>

definition ota_inv ::
    "env \<Rightarrow> byte list \<Rightarrow> (nat \<Rightarrow> byte) \<Rightarrow> u32 \<Rightarrow> u32 \<Rightarrow> 'a io_scheme \<Rightarrow> bool" where
  "ota_inv env bs f0 file_size off s \<longleftrightarrow>
     readable env bs (trace s) \<and> unat file_size = length bs \<and> unat off \<le> length bs \<and>
     read_pos (trace s) = unat off \<and>
     (\<forall>i < unat off. flash_cells f0 (trace s) i = bs ! i) \<and>
     (\<forall>i. unat off \<le> i \<and> i < length bs \<longrightarrow> flash_cells f0 (trace s) i = 255)"

definition flash_holds :: "(nat \<Rightarrow> byte) \<Rightarrow> byte list \<Rightarrow> event list \<Rightarrow> bool" where
  "flash_holds f0 bs tr \<longleftrightarrow> (\<forall>i < length bs. flash_cells f0 tr i = bs ! i)"

lemma ota_body_step:
  assumes inv: "ota_inv env bs f0 file_size off s"
    and run: "run_state (ota_body env file_size off) s = (Inr off', t)"
  shows "ota_inv env bs f0 file_size off' t \<and> unat off < unat off'"
proof -
  from run obtain n r w d where rd_call: "answers env (trace s) (Fs (FsRead n)) r"
    and pos: "0 < r_rc r" and wok: "0 \<le> r_rc w"
    and d_eq: "d = take (nat (r_rc r)) (r_data r)"
    and off': "off' = off + word_of_int (r_rc r)"
    and t: "trace t = trace s @ [(Fs (FsRead n), r), (Flash (FlashAreaWrite off d), w)]"
    by (auto simp: ota_body_def run_iff split: if_split_asm)
  from inv have fc: "readable env bs (trace s)" and sz: "unat file_size = length bs"
    and rp: "read_pos (trace s) = unat off" and le: "unat off \<le> length bs"
    and written: "\<And>i. i < unat off \<Longrightarrow> flash_cells f0 (trace s) i = bs ! i"
    and rest: "\<And>i. unat off \<le> i \<Longrightarrow> i < length bs \<Longrightarrow> flash_cells f0 (trace s) i = 255"
    by (auto simp: ota_inv_def)
  obtain k where k: "unat off + k \<le> length bs" "r_rc r = int k"
    and rd: "r_data r = take k (drop (unat off) bs)"
    using readable_read [OF fc rp le rd_call] pos by auto
  have lenbs: "length bs < 2 ^ 32" using unat_u32_lt [of file_size] sz by simp
  have off'_eq: "unat off' = unat off + k"
    using k lenbs by (simp add: off' unat_add_small unat_of_nat_small)
  have d: "d = take k (drop (unat off) bs)" using k rd by (simp add: d_eq)
  have len: "length d = k" using k d by simp
  have cells: "flash_cells f0 (trace t) i =
      (if unat off \<le> i \<and> i < unat off' then and (flash_cells f0 (trace s) i) (bs ! i)
       else flash_cells f0 (trace s) i)" for i
    using wok len k by (auto simp: t off'_eq d)
  have "read_pos (trace t) = unat off'"
    using rp k off'_eq by (simp add: t)
  moreover have "readable env bs (trace t)"
    using readable_steps [OF fc, of "[(Fs (FsRead n), r), (Flash (FlashAreaWrite off d), w)]"] by (simp add: t)
  moreover have "flash_cells f0 (trace t) i = bs ! i" if "i < unat off'" for i
    using that written [of i] rest [of i] k off'_eq by (auto simp: cells)
  moreover have "flash_cells f0 (trace t) i = 255" if "unat off' \<le> i" "i < length bs" for i
    using that rest [of i] off'_eq by (auto simp: cells)
  ultimately show ?thesis
    using sz k pos off'_eq by (simp add: ota_inv_def)
qed

lemma ota_body_exit:
  assumes inv: "ota_inv env bs f0 file_size off s"
    and run: "run_state (ota_body env file_size off) s = (Inl v, t)"
  shows "v = 0 \<longrightarrow> flash_holds f0 bs (trace t)"
proof
  assume v: "v = 0"
  from inv have fc: "readable env bs (trace s)" and sz: "unat file_size = length bs"
    and rp: "read_pos (trace s) = unat off" "unat off \<le> length bs"
    by (auto simp: ota_inv_def)
  have "\<not> off < file_size"
  proof
    assume lt: "off < file_size"
    define n where "n = min CHUNK_SIZE (file_size - off)"
    from lt run v obtain r where r: "answers env (trace s) (Fs (FsRead n)) r" "r_rc r = 0"
      by (auto simp: ota_body_def n_def run_iff split: if_split_asm)
    have "file_size - off \<noteq> 0" using lt by auto
    then have "0 < unat n"
      by (auto simp: n_def min_def CHUNK_SIZE_def unat_gt_0)
    moreover have "unat off < length bs"
      using lt sz by (simp add: word_less_nat_alt)
    ultimately show False
      using readable_read [OF fc rp r(1)] r(2) by auto
  qed
  with run have "t = s" by (simp add: ota_body_def run_iff)
  with \<open>\<not> off < file_size\<close> inv show "flash_holds f0 bs (trace t)"
    by (auto simp: ota_inv_def flash_holds_def word_less_nat_alt)
qed

interpretation ota: total_loop "ota_body env file_size" "ota_inv env bs f0 file_size"
    "\<lambda>v s. v = 0 \<longrightarrow> flash_holds f0 bs (trace s)" "\<lambda>off s. length bs - unat off"
proof unfold_locales
  fix x y v and s t :: "'b io_scheme"
  show "v = 0 \<longrightarrow> flash_holds f0 bs (trace t)"
    if "ota_inv env bs f0 file_size x s" "run_state (ota_body env file_size x) s = (Inl v, t)"
    using ota_body_exit [OF that] .
  show "ota_inv env bs f0 file_size y t"
    if "ota_inv env bs f0 file_size x s" "run_state (ota_body env file_size x) s = (Inr y, t)"
    using ota_body_step [OF that] by simp
  show "length bs - unat y < length bs - unat x"
    if "ota_inv env bs f0 file_size x s" "run_state (ota_body env file_size x) s = (Inr y, t)"
    using ota_body_step [OF that] by (auto simp: ota_inv_def)
qed


section \<open>Resources and boot requests\<close>

fun is_boot :: "event \<Rightarrow> bool" where
  "is_boot (Boot b, r) = True"
| "is_boot _ = False"

definition boots :: "event list \<Rightarrow> event list" where
  "boots tr = filter is_boot tr"

lemma boots_append [simp]: "boots (xs @ ys) = boots xs @ boots ys"
  by (simp add: boots_def)

lemma boots_Cons [simp]: "boots (e # es) = (if is_boot e then e # boots es else boots es)"
  by (simp add: boots_def)

lemma boots_Nil [simp]: "boots [] = []"
  by (simp add: boots_def)

text \<open>The copy loop neither acquires nor releases anything, and requests no boot.\<close>

definition ota_frame :: "event list \<Rightarrow> event list \<Rightarrow> bool" where
  "ota_frame tr0 tr \<longleftrightarrow> same_resources tr0 tr \<and> boots tr = boots tr0"

lemma ota_body_frame:
  "run_state (ota_body env file_size off) s = (x, t) \<Longrightarrow> ota_frame tr0 (trace s)
    \<Longrightarrow> ota_frame tr0 (trace t)"
  by (auto simp: ota_body_def run_iff ota_frame_def same_resources_def split: if_split_asm)

interpretation ota_frame: loop_contract "ota_body env file_size"
    "\<lambda>_ s. ota_frame tr0 (trace s)" "\<lambda>_ s. ota_frame tr0 (trace s)"
  by unfold_locales (auto intro: ota_body_frame)

text \<open>
  What \<open>ota_prepare\<close> has done when it reaches the loop: the file and the area are open,
  the area is erased, the buffer is allocated.
\<close>

definition ota_opened ::
    "env \<Rightarrow> cstr \<Rightarrow> byte \<Rightarrow> u32 \<Rightarrow> event list \<Rightarrow> event list \<Rightarrow> bool" where
  "ota_opened env file_path partition_id n tr tr' \<longleftrightarrow>
     (\<exists>st fa f er m.
        tr' = tr @ [(Fs (FsStat file_path), st),
          (Flash (FlashAreaOpen partition_id), fa),
          (Fs (FsOpen file_path [FS_O_READ]), f),
          (Flash (FlashAreaErase 0 (erase_size n)), er),
          (Kern (KMalloc CHUNK_SIZE), m)] \<and>
        answers env tr (Fs (FsStat file_path)) st \<and> r_size st = n \<and> n \<noteq> 0 \<and>
        0 \<le> r_rc st \<and> 0 \<le> r_rc fa \<and> 0 \<le> r_rc f \<and> 0 \<le> r_rc er \<and> r_rc m \<noteq> 0)"

lemma ota_prepare_error:
  "run_state (ota_prepare env file_path partition_id) s = (Inl rc, t)
    \<Longrightarrow> rc \<noteq> 0 \<and> ota_frame (trace s) (trace t)"
  by (auto simp: ota_prepare_def ota_cleanup_def run_iff ota_frame_def same_resources_def
      split: if_split_asm)

lemma ota_prepare_ok:
  "run_state (ota_prepare env file_path partition_id) s = (Inr n, t)
    \<Longrightarrow> ota_opened env file_path partition_id n (trace s) (trace t)"
  by (auto simp: ota_prepare_def ota_cleanup_def run_iff ota_opened_def split: if_split_asm)

lemma ota_cleanup_trace:
  "run_state (ota_cleanup env True) s = (x, t) \<Longrightarrow>
     \<exists>k c d. trace t = trace s @ [(Kern KFree, k), (Fs FsClose, c), (Flash FlashAreaClose, d)]"
  by (auto simp: ota_cleanup_def run_iff)

text \<open>An opened session that is cleaned up leaves no resource behind.\<close>

lemma ota_session_frame:
  assumes "ota_opened env p i n tr tr1" and "ota_frame tr1 tr2"
    and "tr3 = tr2 @ [(Kern KFree, k), (Fs FsClose, c), (Flash FlashAreaClose, d)]"
  shows "ota_frame tr tr3"
  using assms by (auto simp: ota_opened_def ota_frame_def same_resources_def)

lemma ota_loop_frame:
  assumes "run_state (loop_fuel fuel (ota_body env n) off) s = (Some v, t)"
  shows "ota_frame (trace s) (trace t)"
  by (rule ota_frame.partial [OF _ assms]) (simp add: ota_frame_def)


section \<open>Writes stay inside the erased range\<close>

fun write_below :: "nat \<Rightarrow> event \<Rightarrow> bool" where
  "write_below lim (Flash (FlashAreaWrite off d), r) = (unat off + length d \<le> lim)"
| "write_below lim _ = True"

definition writes_below :: "nat \<Rightarrow> event list \<Rightarrow> bool" where
  "writes_below lim tr = list_all (write_below lim) tr"

lemma writes_below_append [simp]:
  "writes_below lim (xs @ ys) \<longleftrightarrow> writes_below lim xs \<and> writes_below lim ys"
  by (simp add: writes_below_def)

lemma writes_below_Cons [simp]:
  "writes_below lim (e # es) \<longleftrightarrow> write_below lim e \<and> writes_below lim es"
  by (simp add: writes_below_def)

lemma writes_below_Nil [simp]: "writes_below lim []"
  by (simp add: writes_below_def)

lemma writes_below_mono: "writes_below a tr \<Longrightarrow> a \<le> b \<Longrightarrow> writes_below b tr"
proof (induction tr)
  case Nil
  then show ?case by simp
next
  case (Cons e es)
  then show ?case by (cases e rule: write_below.cases [of "(b, e)" for e]) auto
qed

lemma ota_chunk_inside:
  fixes off file_size :: u32
  assumes "off < file_size" and "reads_bounded env"
    and "answers env tr (Fs (FsRead (min CHUNK_SIZE (file_size - off)))) r" and "0 \<le> r_rc r"
  shows "unat off + nat (r_rc r) \<le> unat file_size \<and>
         off + word_of_int (r_rc r) \<le> file_size"
proof -
  have "min CHUNK_SIZE (file_size - off) \<le> file_size - off" by simp
  then have "unat (min CHUNK_SIZE (file_size - off)) \<le> unat file_size - unat off"
    using unat_sub_le [OF less_imp_le [OF assms(1)]] by (simp add: word_le_nat_alt)
  moreover have "nat (r_rc r) \<le> unat (min CHUNK_SIZE (file_size - off))"
    using assms(2,3) by (simp only: nat_le_iff reads_bounded_def answers_def)
  moreover have "unat off < unat file_size"
    using assms(1) by (simp add: word_less_nat_alt)
  ultimately have le: "unat off + nat (r_rc r) \<le> unat file_size"
    by linarith
  have "(word_of_int (r_rc r) :: u32) = of_nat (nat (r_rc r))"
    using assms(4) by (metis int_nat_eq of_int_of_nat_eq)
  moreover have "unat (of_nat (nat (r_rc r)) :: u32) = nat (r_rc r)"
    using le unat_u32_lt [of file_size] by (intro unat_of_nat_small) simp
  ultimately show ?thesis
    using le unat_u32_lt [of file_size] by (simp add: unat_add_small word_le_nat_alt)
qed

definition ota_bounded :: "env \<Rightarrow> u32 \<Rightarrow> u32 \<Rightarrow> 'a io_scheme \<Rightarrow> bool" where
  "ota_bounded env file_size off s \<longleftrightarrow>
     reads_bounded env \<and> off \<le> file_size \<and> writes_below (unat file_size) (trace s)"

lemma ota_body_bounded:
  assumes "ota_bounded env file_size off s"
    and "run_state (ota_body env file_size off) s = (x, t)"
  shows "writes_below (unat file_size) (trace t) \<and>
    (\<forall>off'. x = Inr off' \<longrightarrow> ota_bounded env file_size off' t)"
proof (cases "off < file_size")
  case False
  with assms show ?thesis by (auto simp: ota_body_def ota_bounded_def run_iff)
next
  case True
  from assms(1) have rb: "reads_bounded env" by (simp add: ota_bounded_def)
  show ?thesis
    using assms True
    by (auto simp: ota_body_def ota_bounded_def run_iff min_le_iff_disj
        dest: ota_chunk_inside [OF True rb, where tr = "trace s"])
qed

interpretation ota_bounds: loop_contract "ota_body env file_size" "ota_bounded env file_size"
    "\<lambda>_ s. writes_below (unat file_size) (trace s)"
  by unfold_locales (use ota_body_bounded in blast)+


lemma ota_prepare_writes:
  "run_state (ota_prepare env p i) s = (x, t) \<Longrightarrow> writes_below lim (trace t) \<longleftrightarrow> writes_below lim (trace s)"
  by (auto simp: ota_prepare_def ota_cleanup_def run_iff)

lemma ota_cleanup_writes:
  "run_state (ota_cleanup env b) s = (x, t) \<Longrightarrow> writes_below lim (trace t) \<longleftrightarrow> writes_below lim (trace s)"
  by (auto simp: ota_cleanup_def run_iff)

section \<open>Properties\<close>

lemma write_ota_cases:
  fixes s t :: "'a io_scheme"
  assumes "run_state (write_ota_file_to_partition env fuel p i) s = (Some rc, t)"
  shows "(rc \<noteq> 0 \<and> ota_frame (trace s) (trace t)) \<or>
    (\<exists>n (u :: 'a io_scheme) w k c d. ota_opened env p i n (trace s) (trace u) \<and>
       run_state (loop_fuel fuel (ota_body env n) 0) u = (Some rc, w) \<and>
       trace t = trace w @ [(Kern KFree, k), (Fs FsClose, c), (Flash FlashAreaClose, d)])"
  using assms unfolding write_ota_file_to_partition_def
  by (auto simp: run_iff dest!: ota_prepare_error ota_prepare_ok ota_cleanup_trace) blast+

lemma write_ota_frame:
  fixes s t :: "'a io_scheme"
  assumes "run_state (write_ota_file_to_partition env fuel p i) s = (Some rc, t)"
  shows "ota_frame (trace s) (trace t)"
  using write_ota_cases [OF assms] by (auto dest!: ota_loop_frame intro: ota_session_frame)

lemma write_ota_boots:
  assumes "run_state (write_ota_file_to_partition env fuel p i) s = (r, t)"
  shows "boots (trace t) = boots (trace s)"
proof (cases r)
  case (Some rc)
  with write_ota_frame [OF assms [unfolded Some]] show ?thesis by (simp add: ota_frame_def)
next
  case None
  have "boots (trace u) = boots (trace s)"
    if "run_state (ota_prepare env p i) s = (Inr n, u)" for n u
    using ota_prepare_ok [OF that] by (auto simp: ota_opened_def)
  moreover have "boots (trace t) = boots (trace u)"
    if "run_state (loop_fuel fuel (ota_body env n) 0) u = (None, t)" for n u
    using ota_frame.running [OF _ that, of "trace u"] by (auto simp: ota_frame_def)
  ultimately show ?thesis
    using assms None by (auto simp: write_ota_file_to_partition_def run_iff)
qed

lemma boot_event_iff: "(Boot b, x) \<in> set tr \<longleftrightarrow> (Boot b, x) \<in> set (boots tr)"
  by (simp add: boots_def)

text \<open>After the preparation the loop invariant holds with nothing copied yet.\<close>

lemma ota_opened_inv:
  assumes "ota_opened env p i n (trace s) (trace u)" and "readable env bs (trace u)"
    and "unat n = length bs" and "length bs + 4095 < 2 ^ 32"
  shows "ota_inv env bs f0 n 0 u"
proof -
  have "unat n \<le> unat (erase_size n)"
    using assms(3,4) by (intro erase_size_covers) simp
  with assms show ?thesis
    by (auto simp: ota_opened_def ota_inv_def)
qed

lemma ota_holds_at:
  fixes s t :: "'a io_scheme"
  assumes "\<And>n tr. ota_opened env file_path partition_id n (trace s) tr \<Longrightarrow> readable env bs tr"
    and "length bs + 4095 < 2 ^ 32"
    and "r_size (env (trace s) (Fs (FsStat file_path))) = of_nat (length bs)"
    and "run_state (write_ota_file_to_partition env fuel file_path partition_id) s = (Some 0, t)"
  shows "flash_holds f0 bs (trace t)"
proof -
  from write_ota_cases [OF assms(4)] obtain n and u :: "'a io_scheme"
    and w k c d where
    op: "ota_opened env file_path partition_id n (trace s) (trace u)"
    and lp: "run_state (loop_fuel fuel (ota_body env n) 0) u = (Some 0, w)"
    and t: "trace t = trace w @ [(Kern KFree, k), (Fs FsClose, c), (Flash FlashAreaClose, d)]"
    by blast
  from op assms(3) have "n = of_nat (length bs)" by (auto simp: ota_opened_def answers_def)
  then have "unat n = length bs" using assms(2) by (simp add: unat_of_nat_small)
  with op assms(1,2) have "ota_inv env bs f0 n 0 u" by (intro ota_opened_inv)
  from ota.partial [OF this lp] show ?thesis by (simp add: t flash_holds_def)
qed

lemma ota_holds:
  fixes s t :: "'a io_scheme"
  assumes "file_content env bs" and "length bs + 4095 < 2 ^ 32"
    and "\<And>tr. r_size (env tr (Fs (FsStat file_path))) = of_nat (length bs)"
    and "run_state (write_ota_file_to_partition env fuel file_path partition_id) s = (Some 0, t)"
  shows "flash_holds f0 bs (trace t)"
  by (rule ota_holds_at [OF file_content_readable [OF assms(1)] assms(2-4)])

text \<open>
  C1: a zero return of \<open>write_ota_file_to_partition\<close> is truthful. Whatever the flash held
  before and whatever the other platform calls answer, if the file holds \<open>bs\<close> (and
  \<open>fs_stat\<close> reports its length) and the function returns 0, the partition reads back
  exactly \<open>bs\<close> from offset 0 on. Programming can only clear bits, so this also says that
  every byte was erased before it was written, and written once.
\<close>

theorem ota_image_written:
  assumes "file_content env bs" and "length bs + 4095 < 2 ^ 32"
    and "\<And>tr. r_size (env tr (Fs (FsStat file_path))) = of_nat (length bs)"
    and "run_state (write_ota_file_to_partition env fuel file_path partition_id) s = (Some 0, t)"
  shows "flash_holds f0 bs (trace t)"
  using assms by (rule ota_holds)

abbreviation ota_demo :: "(io, int option) state" where
  "ota_demo \<equiv> write_ota_file_to_partition (sim_env [1, 2, 3]) 5 ''/SD:/a.bin'' 1"

lemma ota_demo_result: "result ota_demo io0 = Some 0"
  by code_simp

lemma ota_demo_run: "run_state ota_demo io0 = (Some 0, final ota_demo io0)"
  using run_result [of ota_demo io0] ota_demo_result by simp

theorem ota_image_written_witness:
  "file_content (sim_env [1, 2, 3]) [1, 2, 3] \<and>
   flash_holds (\<lambda>_. 0) [1, 2, 3] (trace (final ota_demo io0))"
  using ota_image_written [OF sim_env_content _ sim_env_stat ota_demo_run] sim_env_content by simp

text \<open>
  C18: the upgrade function returns. On a file that holds \<open>bs\<close> any fuel above the length of
  the file is enough, whatever the other platform calls answer.
\<close>

theorem ota_returns:
  assumes "file_content env bs" and "length bs + 4095 < 2 ^ 32"
    and "\<And>tr. r_size (env tr (Fs (FsStat file_path))) = of_nat (length bs)"
    and "length bs < fuel"
  shows "\<exists>rc t. run_state (write_ota_file_to_partition env fuel file_path partition_id) s = (Some rc, t)"
proof -
  obtain x u where p: "run_state (ota_prepare env file_path partition_id) s = (x, u)"
    by fastforce
  show ?thesis
  proof (cases x)
    case (Inl rc)
    with p show ?thesis by (auto simp: write_ota_file_to_partition_def run_iff)
  next
    case (Inr n)
    with p have op: "ota_opened env file_path partition_id n (trace s) (trace u)"
      by (simp add: ota_prepare_ok)
    with assms(3) have "n = of_nat (length bs)" by (auto simp: ota_opened_def answers_def)
    then have n: "unat n = length bs" using assms(2) by (simp add: unat_of_nat_small)
    have "ota_inv env bs (\<lambda>_. 0) n 0 u"
      using op file_content_readable [OF assms(1)] n assms(2) by (rule ota_opened_inv)
    with n assms(4) obtain v w where "run_state (loop_fuel fuel (ota_body env n) 0) u = (Some v, w)"
      using ota.total [of env bs "\<lambda>_. 0" n 0 u fuel] by auto
    moreover obtain y z where "run_state (ota_cleanup env True) w = (y, z)"
      by (metis surj_pair)
    ultimately show ?thesis
      using p Inr by (auto simp: write_ota_file_to_partition_def run_iff)
  qed
qed

theorem ota_returns_witness: "\<exists>rc t. run_state ota_demo io0 = (Some rc, t)"
  by (rule ota_returns [OF sim_env_content _ sim_env_stat]) simp_all

text \<open>
  on every path of \<open>write_ota_file_to_partition\<close>, error paths included and whatever the
  platform answers, the file, the flash area and the heap buffer that were acquired are
  given back exactly once.
\<close>

theorem ota_no_leak:
  assumes "run_state (write_ota_file_to_partition env fuel file_path partition_id) s = (Some rc, t)"
  shows "same_resources (trace s) (trace t)"
  using write_ota_frame [OF assms] by (simp add: ota_frame_def)

theorem ota_no_leak_witness: "same_resources [] (trace (final ota_demo io0))"
  using ota_no_leak [OF ota_demo_run] by (simp add: io0_def)

text \<open>
  the flash is never programmed outside the range the function erased: every write of
  a run lies below the size \<open>fs_stat\<close> reported, and so inside the erased sectors. This
  needs no promise of the platform but that a read returns no more than was asked for.
\<close>

theorem ota_writes_inside:
  assumes "reads_bounded env"
    and "unat (r_size (env (trace s) (Fs (FsStat file_path)))) = lim"
    and "writes_below lim (trace s)"
    and "run_state (write_ota_file_to_partition env fuel file_path partition_id) s = (Some rc, t)"
  shows "writes_below lim (trace t)"
proof -
  obtain x u where p: "run_state (ota_prepare env file_path partition_id) s = (x, u)"
    by (metis surj_pair)
  with assms(3) have wu: "writes_below lim (trace u)" by (simp add: ota_prepare_writes)
  show ?thesis
  proof (cases x)
    case (Inl e)
    with p assms(4) wu show ?thesis by (simp add: write_ota_file_to_partition_def run_iff)
  next
    case (Inr n)
    with p have "ota_opened env file_path partition_id n (trace s) (trace u)"
      by (simp add: ota_prepare_ok)
    with assms(2) have n: "unat n = lim" by (auto simp: ota_opened_def answers_def)
    with wu assms(1) have "ota_bounded env n 0 u" by (simp add: ota_bounded_def)
    with p Inr assms(4) n show ?thesis
      by (auto simp: write_ota_file_to_partition_def run_iff ota_cleanup_writes
          dest: ota_bounds.partial)
  qed
qed

theorem ota_writes_inside_witness: "writes_below 3 (trace (final ota_demo io0))"
proof -
  have "unat (r_size (sim_env [1, 2, 3] (trace io0) (Fs (FsStat ''/SD:/a.bin'')))) = 3"
    by (simp add: sim_env_stat)
  moreover have "writes_below 3 (trace io0)" by (simp add: io0_def)
  ultimately show ?thesis
    by (rule ota_writes_inside [OF sim_env_bounded _ _ ota_demo_run])
qed

lemma trigger_upgrade_trace:
  "run_state (trigger_upgrade env) s = (y, t) \<Longrightarrow>
     (\<exists>q. trace t = trace s @ [(Boot BootRequestUpgradeTest, q)] \<and> r_rc q < 0) \<or>
     (\<exists>q w x. trace t = trace s @ [(Boot BootRequestUpgradeTest, q), (Kern (KSleepMs 100), w),
        (Boot SysRebootWarm, x)] \<and> 0 \<le> r_rc q)"
  by (auto simp: trigger_upgrade_def run_iff not_less)

text \<open>A run that reboots has written the image and then requested the test boot.\<close>

lemma perform_ota_reboots:
  fixes s t :: "'a io_scheme"
  assumes "run_state (perform_ota_upgrade_from_file env fuel part path) s = (r, t)"
    and "\<forall>x. (Boot SysRebootWarm, x) \<notin> set (trace s)"
    and "(Boot SysRebootWarm, x) \<in> set (trace t)"
  obtains target y q w and s1 t1 :: "'a io_scheme"
  where "trace s1 = trace s @ [(Boot BootFetchActiveSlot, y)]"
    and "run_state (write_ota_file_to_partition env fuel path target) s1 = (Some 0, t1)"
    and "trace t = trace t1 @ [(Boot BootRequestUpgradeTest, q), (Kern (KSleepMs 100), w), (Boot SysRebootWarm, x)]"
    and "0 \<le> r_rc q"
proof -
  from assms(1) obtain target rc and s1 t1 :: "'a io_scheme" where
    s1: "run_state (get_upgrade_target_partition_id env part) s = (target, s1)"
    and t1: "run_state (write_ota_file_to_partition env fuel path target) s1 = (rc, t1)"
    and rest: "(rc = Some 0 \<and> (\<exists>y. run_state (trigger_upgrade env) t1 = (y, t))) \<or>
      (rc \<noteq> Some 0 \<and> t = t1)"
    unfolding perform_ota_upgrade_from_file_def by (auto simp: run_iff)
  from s1 obtain y where b1: "trace s1 = trace s @ [(Boot BootFetchActiveSlot, y)]"
    by (auto simp: get_upgrade_target_partition_id_def run_iff)
  from assms(2) b1 have "(Boot SysRebootWarm, x) \<notin> set (boots (trace s1))"
    by (auto simp: boots_def)
  then have no: "(Boot SysRebootWarm, x) \<notin> set (trace t1)"
    using write_ota_boots [OF t1] by (metis boot_event_iff)
  with assms(3) rest obtain z where rc: "rc = Some 0" and z: "run_state (trigger_upgrade env) t1 = (z, t)"
    by auto
  from trigger_upgrade_trace [OF z] no assms(3) obtain q w where
    "trace t = trace t1 @ [(Boot BootRequestUpgradeTest, q), (Kern (KSleepMs 100), w),
       (Boot SysRebootWarm, x)]" and "0 \<le> r_rc q"
    by (elim disjE exE conjE) auto
  with b1 t1 [unfolded rc] that show ?thesis by blast
qed

lemma flash_holds_boot:
  "flash_holds f0 bs (tr @ [(Boot a, q), (Kern k, w), (Boot b, x)]) \<longleftrightarrow> flash_holds f0 bs tr"
  by (simp add: flash_holds_def)

text \<open>A platform on which no call of an upgrade fails: the upgrade then succeeds.\<close>

definition upgrade_works :: "env \<Rightarrow> bool" where
  "upgrade_works env \<longleftrightarrow> (\<forall>tr.
     (\<forall>p. 0 \<le> r_rc (env tr (Fs (FsStat p))) \<and> \<not> r_isdir (env tr (Fs (FsStat p)))) \<and>
     (\<forall>p fl. 0 \<le> r_rc (env tr (Fs (FsOpen p fl)))) \<and>
     (\<forall>n. 0 \<le> r_rc (env tr (Fs (FsRead n)))) \<and>
     (\<forall>i. 0 \<le> r_rc (env tr (Flash (FlashAreaOpen i)))) \<and>
     (\<forall>off n. 0 \<le> r_rc (env tr (Flash (FlashAreaErase off n)))) \<and>
     (\<forall>off d. 0 \<le> r_rc (env tr (Flash (FlashAreaWrite off d)))) \<and>
     (\<forall>n. r_rc (env tr (Kern (KMalloc n))) \<noteq> 0) \<and>
     0 \<le> r_rc (env tr (Boot BootRequestUpgradeTest)))"

lemma ota_body_ok:
  assumes "upgrade_works env" and "run_state (ota_body env n off) s = (Inl v, t)"
  shows "v = 0"
proof -
  have "answers env tr (Fs (FsRead m)) r \<Longrightarrow> \<not> r_rc r < 0"
    "answers env tr (Flash (FlashAreaWrite o' d)) r \<Longrightarrow> \<not> r_rc r < 0" for tr m r o' d
    using assms(1) by (auto simp: upgrade_works_def answers_def not_less)
  with assms(2) show ?thesis by (auto simp: run_iff ota_body_def split: if_split_asm)
qed

lemma ota_loop_ok:
  assumes "upgrade_works env"
  shows "run_state (loop_fuel fuel (ota_body env n) off) s = (Some v, t) \<Longrightarrow> v = 0"
proof (induction fuel arbitrary: s off)
  case 0
  then show ?case by simp
next
  case (Suc k)
  obtain r u where r: "run_state (ota_body env n off) s = (r, u)" by fastforce
  show ?case
  proof (cases r)
    case (Inl x)
    with Suc.prems r ota_body_ok [OF assms, of n off s x u] show ?thesis by (simp add: run_eval)
  next
    case (Inr x)
    with Suc r show ?thesis by (simp add: run_eval)
  qed
qed

lemma ota_prepare_works:
  assumes "upgrade_works env" and "r_size (env (trace s) (Fs (FsStat p))) \<noteq> 0"
  shows "\<exists>n u. run_state (ota_prepare env p i) s = (Inr n, u)"
  using assms by (auto simp: upgrade_works_def ota_prepare_def run_eval not_less [symmetric])

lemma perform_ota_works:
  fixes s :: "'a io_scheme"
  assumes "upgrade_works env" and "length bs + 4095 < 2 ^ 32" and "length bs < fuel" and "bs \<noteq> []"
    and "\<And>y. r_size (env (trace s @ [(Boot BootFetchActiveSlot, y)]) (Fs (FsStat path))) = of_nat (length bs)"
    and "\<And>i n y tr. ota_opened env path i n (trace s @ [(Boot BootFetchActiveSlot, y)]) tr \<Longrightarrow> readable env bs tr"
  shows "\<exists>t x. run_state (perform_ota_upgrade_from_file env fuel part path) s = (Some (), t) \<and>
    (Boot SysRebootWarm, x) \<in> set (trace t) \<and> flash_holds f0 bs (trace t)"
proof -
  define y where "y = env (trace s) (Boot BootFetchActiveSlot)"
  define s1 where "s1 = s\<lparr>trace := trace s @ [(Boot BootFetchActiveSlot, y)]\<rparr>"
  obtain target s1' where "run_state (get_upgrade_target_partition_id env part) s = (target, s1')"
    by fastforce
  moreover from this have "s1' = s1"
    by (auto simp: get_upgrade_target_partition_id_def run_iff s1_def y_def answers_def)
  ultimately have g: "run_state (get_upgrade_target_partition_id env part) s = (target, s1)" by simp
  have size: "r_size (env (trace s1) (Fs (FsStat path))) = of_nat (length bs)"
    using assms(5) by (simp add: s1_def)
  have "unat (of_nat (length bs) :: u32) \<noteq> 0"
    using assms(2,4) unat_of_nat_small [of "length bs", where 'a = 32] by simp
  then have "(of_nat (length bs) :: u32) \<noteq> 0" by auto
  with ota_prepare_works [OF assms(1), of s1 path] size obtain n u where
    u: "run_state (ota_prepare env path target) s1 = (Inr n, u)" by metis
  note op = ota_prepare_ok [OF u]
  have "n = of_nat (length bs)" using op size by (auto simp: ota_opened_def answers_def)
  then have n: "unat n = length bs" using assms(2) by (simp add: unat_of_nat_small)
  have "readable env bs (trace u)" using assms(6) op by (simp add: s1_def)
  from ota_opened_inv [OF op this n assms(2)] have "ota_inv env bs f0 n 0 u" .
  from ota.total [OF this, of fuel] assms(3) obtain v w where
    lp: "run_state (loop_fuel fuel (ota_body env n) 0) u = (Some v, w)"
    and "v = 0 \<longrightarrow> flash_holds f0 bs (trace w)"
    by auto
  then have v: "v = 0" "flash_holds f0 bs (trace w)"
    using ota_loop_ok [OF assms(1) lp] by blast+
  obtain z w' where c: "run_state (ota_cleanup env True) w = (z, w')" by (metis surj_pair)
  from ota_cleanup_trace [OF c] v(2) have h: "flash_holds f0 bs (trace w')"
    by (auto simp: flash_holds_def)
  have wr: "run_state (write_ota_file_to_partition env fuel path target) s1 = (Some 0, w')"
    using u lp c v(1) by (simp add: write_ota_file_to_partition_def run_eval)
  have "\<not> r_rc (env (trace w') (Boot BootRequestUpgradeTest)) < 0"
    using assms(1) by (simp add: upgrade_works_def not_less)
  with g wr h show ?thesis
    by (auto simp: perform_ota_upgrade_from_file_def trigger_upgrade_def run_eval flash_holds_def)
qed

text \<open>
  C2: the device only reboots into a complete image. If a run of
  \<open>perform_ota_upgrade_from_file\<close> on a file holding \<open>bs\<close> reaches \<open>sys_reboot\<close>, then the
  partition holds \<open>bs\<close> and MCUboot has accepted the request for a test boot, which
  immediately precedes the reboot.
\<close>

theorem ota_reboot_only_with_image:
  fixes s t :: "'a io_scheme"
  assumes "file_content env bs" and "length bs + 4095 < 2 ^ 32"
    and "\<And>tr. r_size (env tr (Fs (FsStat path))) = of_nat (length bs)"
    and "run_state (perform_ota_upgrade_from_file env fuel part path) s = (r, t)"
    and "\<forall>x. (Boot SysRebootWarm, x) \<notin> set (trace s)"
    and "(Boot SysRebootWarm, x) \<in> set (trace t)"
  shows "flash_holds f0 bs (trace t) \<and>
    (\<exists>tr q w. 0 \<le> r_rc q \<and> trace t = tr @ [(Boot BootRequestUpgradeTest, q),
       (Kern (KSleepMs 100), w), (Boot SysRebootWarm, x)])"
proof -
  from perform_ota_reboots [OF assms(4-6)] obtain target y q w and s1 t1 :: "'a io_scheme" where
    t1: "run_state (write_ota_file_to_partition env fuel path target) s1 = (Some 0, t1)"
    and t: "trace t = trace t1 @ [(Boot BootRequestUpgradeTest, q), (Kern (KSleepMs 100), w), (Boot SysRebootWarm, x)]"
      "0 \<le> r_rc q"
    by metis
  from ota_holds [OF assms(1-3) t1] t show ?thesis
    by (auto simp: flash_holds_boot)
qed

abbreviation reboot_demo :: "(io, unit option) state" where
  "reboot_demo \<equiv> perform_ota_upgrade_from_file (sim_env [1, 2, 3]) 5 (\<lambda>_. 1) ''/SD:/a.bin''"

lemma reboot_demo_reboots: "(Boot SysRebootWarm, reply_rc 0) \<in> set (trace (final reboot_demo io0))"
  by code_simp

theorem ota_reboot_only_with_image_witness:
  "flash_holds (\<lambda>_. 0) [1, 2, 3] (trace (final reboot_demo io0))"
  using ota_reboot_only_with_image [OF sim_env_content _ sim_env_stat run_result _
      reboot_demo_reboots]
  by (simp add: io0_def)

text \<open>
  the slot the upgrade writes does not depend on the slot that is running: both slot
  identifiers name the same partition, so a device that runs from it is told to overwrite
  the image it is running from.
\<close>

theorem ota_target_is_slot0:
  "result (get_upgrade_target_partition_id env part) s = part ''slot0_partition''"
  by (simp add: result_def get_upgrade_target_partition_id_def run_eval
      SLOT0_PART_ID_def SLOT1_PART_ID_def)

fun is_flash_write :: "event \<Rightarrow> bool" where
  "is_flash_write (Flash (FlashAreaWrite off d), r) = True"
| "is_flash_write _ = False"

definition flash_writes :: "event list \<Rightarrow> event list" where
  "flash_writes tr = filter is_flash_write tr"

definition short_env :: env where
  "short_env = sim_over [(Fs (FsRead 3), reply_rc 0)] (sim_env [1, 2, 3])"

text \<open>
  a read that returns 0 before the end of the file ends the copy as if the file were
  complete. There is a platform on which the function returns 0 for a three-byte image of
  which it has programmed nothing.
\<close>

theorem ota_short_read_accepted:
  "\<exists>env :: env.
     r_size (env [] (Fs (FsStat ''/SD:/a.bin''))) = 3 \<and>
     result (write_ota_file_to_partition env 2 ''/SD:/a.bin'' 1) io0 = Some 0 \<and>
     flash_writes (trace (final (write_ota_file_to_partition env 2 ''/SD:/a.bin'' 1) io0)) = []"
proof
  show "r_size (short_env [] (Fs (FsStat ''/SD:/a.bin''))) = 3 \<and>
     result (write_ota_file_to_partition short_env 2 ''/SD:/a.bin'' 1) io0 = Some 0 \<and>
     flash_writes (trace (final (write_ota_file_to_partition short_env 2 ''/SD:/a.bin'' 1) io0)) = []"
    by code_simp
qed

text \<open>
  \<open>upgrade_check_image\<close> confirms the running image exactly when it is not confirmed
  yet, and returns -1 exactly when that confirmation fails.
\<close>

theorem upgrade_check_image_spec:
  assumes "run_state (upgrade_check_image env) s = (rc, t)"
  shows "(\<exists>c. r_rc c \<noteq> 0 \<and> rc = 0 \<and> trace t = trace s @ [(Boot BootIsImgConfirmed, c)]) \<or>
    (\<exists>c w. r_rc c = 0 \<and> rc = (if r_rc w < 0 then - 1 else 0) \<and>
       trace t = trace s @ [(Boot BootIsImgConfirmed, c), (Boot BootWriteImgConfirmed, w)])"
  using assms by (auto simp: upgrade_check_image_def run_iff) blast+

theorem upgrade_check_image_spec_witness:
  "(\<exists>c w. r_rc c = 0 \<and>
     result (upgrade_check_image (sim_env [])) io0 = (if r_rc w < 0 then - 1 else 0) \<and>
     trace (final (upgrade_check_image (sim_env [])) io0)
       = [(Boot BootIsImgConfirmed, c), (Boot BootWriteImgConfirmed, w)])"
proof -
  have "length (trace (final (upgrade_check_image (sim_env [])) io0)) = 2" by code_simp
  then show ?thesis
    using upgrade_check_image_spec [OF run_result [of "upgrade_check_image (sim_env [])" io0]]
    by (auto simp: io0_def) blast+
qed

end
