(* ===== verification/Sha256sum.thy ===== *)
theory Sha256sum
  imports Platform CString
begin

text \<open>
  \<open>src/sha256sum.c\<close>: hashing a file in blocks of 1 KB with the PSA multi-part interface,
  and printing the digest as 64 hexadecimal digits. PSA itself is the platform's; the
  hypothesis \<open>psa_hashes\<close> says that finishing an operation delivers the hash of the bytes
  fed to it.
\<close>

section \<open>Definitions\<close>

definition READ_BUFFER_SIZE :: u32 where
  "READ_BUFFER_SIZE = 1024"

text \<open>
  The loop \<open>while ((bytes_read = fs_read(...)) > 0)\<close>: it leaves with \<open>Inl rc\<close> when the
  function returns from inside it and with \<open>Inr bytes_read\<close> when its condition fails.
\<close>

definition sha_body :: "env \<Rightarrow> unit \<Rightarrow> ('a io_scheme, (int + int) + unit) state" where
  "sha_body env _ = do {
     r \<leftarrow> ext env (Fs (FsRead READ_BUFFER_SIZE));
     (if r_rc r > 0 then do {
        u \<leftarrow> ext env (Psa (PsaHashUpdate (take (nat (r_rc r)) (r_data r))));
        (if r_rc u \<noteq> 0 then do {
           _ \<leftarrow> ext env (Psa PsaHashAbort);
           _ \<leftarrow> ext env (Fs FsClose);
           State_Monad.return (Inl (Inl (- EIO)))
         } else State_Monad.return (Inr ()))
      } else State_Monad.return (Inl (Inr (r_rc r))))
   }"

text \<open>Steps 1 to 3: \<open>None\<close> reaches the loop, \<open>Some rc\<close> is an error return.\<close>

definition sha_prepare :: "env \<Rightarrow> cstr \<Rightarrow> ('a io_scheme, int option) state" where
  "sha_prepare env filepath = do {
     i \<leftarrow> ext env (Psa PsaCryptoInit);
     (if r_rc i \<noteq> 0 then State_Monad.return (Some (- EIO))
      else do {
        f \<leftarrow> ext env (Fs (FsOpen filepath [FS_O_READ]));
        (if r_rc f < 0 then State_Monad.return (Some (r_rc f))
         else do {
           h \<leftarrow> ext env (Psa PsaHashSetupSha256);
           (if r_rc h \<noteq> 0 then do {
              _ \<leftarrow> ext env (Fs FsClose);
              State_Monad.return (Some (- EIO))
            } else State_Monad.return None)
         })
      })
   }"

text \<open>
  Everything behind the loop; \<open>output\<close> is the caller's 32-byte array. What \<open>psa_hash_finish\<close>
  leaves in it is what its reply says, also when it fails (PSA promises nothing then).
\<close>

definition sha_finish ::
    "env \<Rightarrow> byte list \<Rightarrow> int \<Rightarrow> ('a io_scheme, int \<times> byte list) state" where
  "sha_finish env output bytes_read =
     (if bytes_read < 0 then do {
        _ \<leftarrow> ext env (Psa PsaHashAbort);
        _ \<leftarrow> ext env (Fs FsClose);
        State_Monad.return (bytes_read, output)
      } else do {
        d \<leftarrow> ext env (Psa PsaHashFinish);
        (if r_rc d \<noteq> 0 then do {
           _ \<leftarrow> ext env (Psa PsaHashAbort);
           _ \<leftarrow> ext env (Fs FsClose);
           State_Monad.return (- EIO, r_data d)
         } else do {
           _ \<leftarrow> ext env (Fs FsClose);
           State_Monad.return (0, r_data d)
         })
      })"

definition calculate_file_sha256 ::
    "env \<Rightarrow> nat \<Rightarrow> cstr \<Rightarrow> byte list \<Rightarrow> ('a io_scheme, (int \<times> byte list) option) state" where
  "calculate_file_sha256 env fuel filepath output = do {
     p \<leftarrow> sha_prepare env filepath;
     (case p of
        Some rc \<Rightarrow> State_Monad.return (Some (rc, output))
      | None \<Rightarrow> do {
          l \<leftarrow> loop_fuel fuel (sha_body env) ();
          (case l of
             None \<Rightarrow> State_Monad.return None
           | Some v \<Rightarrow>
               (case v of
                  Inl rc \<Rightarrow> State_Monad.return (Some (rc, output))
                | Inr bytes_read \<Rightarrow> do {
                    q \<leftarrow> sha_finish env output bytes_read;
                    State_Monad.return (Some q)
                  }))
        })
   }"

text \<open>
  \<open>print_sha256_sum\<close>: iteration \<open>i\<close> prints two digits and a NUL at \<open>sha256_str + 2 * i\<close>.
  The buffer has 65 elements; a store outside of it is \<open>None\<close>.
\<close>

definition store_chars :: "char list \<Rightarrow> nat \<Rightarrow> char list \<Rightarrow> char list option" where
  "store_chars buf off cs =
     (if off + length cs \<le> length buf
      then Some (take off buf @ cs @ drop (off + length cs) buf) else None)"

fun print_hex :: "char list \<Rightarrow> nat \<Rightarrow> byte list \<Rightarrow> char list option" where
  "print_hex buf i [] = Some buf"
| "print_hex buf i (b # bs) =
     (case store_chars buf (i * 2) (hex2 b @ [CHR 0x00]) of
        None \<Rightarrow> None
      | Some buf' \<Rightarrow> print_hex buf' (Suc i) bs)"

definition c_string :: "char list \<Rightarrow> cstr" where
  "c_string buf = takeWhile (\<lambda>c. c \<noteq> CHR 0x00) buf"

definition print_sha256_sum :: "env \<Rightarrow> char list \<Rightarrow> byte list \<Rightarrow> cstr \<Rightarrow> ('a io_scheme, unit option) state" where
  "print_sha256_sum env garbage sha256 filename =
     (case print_hex garbage 0 sha256 of
        None \<Rightarrow> State_Monad.return None
      | Some buf \<Rightarrow> do {
          _ \<leftarrow> ext env (Kern (Printk (c_string buf @ ''  '' @ filename @ [CHR 0x0A])));
          State_Monad.return (Some ())
        })"

section \<open>The bytes that were hashed\<close>

text \<open>
  The input of the current hash operation: setting one up starts it empty, an update
  that succeeds appends.
\<close>

fun hash_after :: "byte list \<Rightarrow> event \<Rightarrow> byte list" where
  "hash_after h (Psa PsaHashSetupSha256, r) = (if r_rc r = 0 then [] else h)"
| "hash_after h (Psa (PsaHashUpdate d), r) = (if r_rc r = 0 then h @ d else h)"
| "hash_after h _ = h"

definition hash_input :: "event list \<Rightarrow> byte list" where
  "hash_input tr = foldl hash_after [] tr"

lemma hash_input_append [simp]: "hash_input (tr @ es) = foldl hash_after (hash_input tr) es"
  by (simp add: hash_input_def)

definition psa_hashes :: "(byte list \<Rightarrow> byte list) \<Rightarrow> env \<Rightarrow> bool" where
  "psa_hashes sha env \<longleftrightarrow>
     (\<forall>tr. r_rc (env tr (Psa PsaHashFinish)) = 0 \<longrightarrow>
        r_data (env tr (Psa PsaHashFinish)) = sha (hash_input tr))"

definition sha_inv :: "env \<Rightarrow> byte list \<Rightarrow> unit \<Rightarrow> 'a io_scheme \<Rightarrow> bool" where
  "sha_inv env bs _ s \<longleftrightarrow>
     readable env bs (trace s) \<and> read_pos (trace s) \<le> length bs \<and>
     hash_input (trace s) = take (read_pos (trace s)) bs"

lemma sha_body_step:
  assumes "sha_inv env bs x s" and "run_state (sha_body env x) s = (Inr y, t)"
  shows "sha_inv env bs y t \<and> read_pos (trace s) < read_pos (trace t)"
proof -
  from assms(2) obtain r u where rd: "answers env (trace s) (Fs (FsRead READ_BUFFER_SIZE)) r"
    and pos: "0 < r_rc r" and u: "r_rc u = 0"
    and t: "trace t = trace s @ [(Fs (FsRead READ_BUFFER_SIZE), r),
      (Psa (PsaHashUpdate (take (nat (r_rc r)) (r_data r))), u)]"
    by (auto simp: sha_body_def run_iff)
  from assms(1) have inv: "readable env bs (trace s)" "read_pos (trace s) \<le> length bs"
    "hash_input (trace s) = take (read_pos (trace s)) bs"
    by (auto simp: sha_inv_def)
  obtain k where "read_pos (trace s) + k \<le> length bs" "r_rc r = int k"
    and "r_data r = take k (drop (read_pos (trace s)) bs)"
    using readable_read [OF inv(1) refl inv(2) rd] pos by auto
  moreover have "readable env bs (trace t)"
    using readable_steps [OF inv(1), of "[(Fs (FsRead READ_BUFFER_SIZE), r),
      (Psa (PsaHashUpdate (take (nat (r_rc r)) (r_data r))), u)]"] by (simp add: t)
  ultimately show ?thesis
    using inv pos u by (simp add: sha_inv_def t take_drop_snoc)
qed

lemma sha_body_exit:
  assumes "sha_inv env bs x s" and "run_state (sha_body env x) s = (Inl (Inr n), t)" and "0 \<le> n"
  shows "hash_input (trace t) = bs"
proof -
  from assms(2,3) obtain r where rd: "answers env (trace s) (Fs (FsRead READ_BUFFER_SIZE)) r"
    and r0: "r_rc r = 0" and t: "trace t = trace s @ [(Fs (FsRead READ_BUFFER_SIZE), r)]"
    by (auto simp: sha_body_def run_iff)
  from assms(1) have inv: "readable env bs (trace s)" "read_pos (trace s) \<le> length bs"
    "hash_input (trace s) = take (read_pos (trace s)) bs"
    by (auto simp: sha_inv_def)
  have "\<not> read_pos (trace s) < length bs"
    using readable_read [OF inv(1) refl inv(2) rd] r0 by (auto simp: READ_BUFFER_SIZE_def)
  with inv show ?thesis by (simp add: t)
qed

interpretation sha: total_loop "sha_body env" "sha_inv env bs"
    "\<lambda>v s. \<forall>n. v = Inr n \<longrightarrow> 0 \<le> n \<longrightarrow> hash_input (trace s) = bs"
    "\<lambda>_ s. length bs - read_pos (trace s)"
proof unfold_locales
  fix x y and v :: "int + int" and s t :: "'b io_scheme"
  show "\<forall>n. v = Inr n \<longrightarrow> 0 \<le> n \<longrightarrow> hash_input (trace t) = bs"
    if "sha_inv env bs x s" "run_state (sha_body env x) s = (Inl v, t)"
    using sha_body_exit that by blast
  show "sha_inv env bs y t"
    if "sha_inv env bs x s" "run_state (sha_body env x) s = (Inr y, t)"
    using sha_body_step [OF that] by simp
  show "length bs - read_pos (trace t) < length bs - read_pos (trace s)"
    if "sha_inv env bs x s" "run_state (sha_body env x) s = (Inr y, t)"
    using sha_body_step [OF that] by (auto simp: sha_inv_def)
qed

section \<open>Resources\<close>

text \<open>
  Inside the loop the file is open and the hash operation active; \<open>sha_busy\<close> says so
  relative to the trace of the call.
\<close>

definition sha_busy :: "event list \<Rightarrow> event list \<Rightarrow> bool" where
  "sha_busy tr0 tr \<longleftrightarrow> same_resources (tr0 @
     [(Fs (FsOpen [] []), reply_rc 0), (Psa PsaHashSetupSha256, reply_rc 0)]) tr"

lemma sha_prepare_res:
  "run_state (sha_prepare env p) s = (x, t) \<Longrightarrow>
     (if x = None then sha_busy (trace s) (trace t) else same_resources (trace s) (trace t))"
  by (auto simp: sha_prepare_def run_iff sha_busy_def same_resources_def reply_rc_def)

lemma sha_finish_res:
  "run_state (sha_finish env out n) s = (x, t) \<Longrightarrow> sha_busy tr0 (trace s)
    \<Longrightarrow> same_resources tr0 (trace t)"
  by (auto simp: sha_finish_def run_iff sha_busy_def same_resources_def reply_rc_def)

interpretation sha_res: loop_contract "sha_body env" "\<lambda>_ s. sha_busy tr0 (trace s)"
    "\<lambda>v s. (case v of Inl rc \<Rightarrow> same_resources tr0 (trace s) | Inr n \<Rightarrow> sha_busy tr0 (trace s))"
  by unfold_locales
    (auto simp: sha_body_def run_iff sha_busy_def same_resources_def reply_rc_def)


lemma sha_loop_res:
  assumes "run_state (loop_fuel fuel (sha_body env) x) s = (Some v, t)"
  shows "sha_busy tr0 (trace s) \<longrightarrow>
    (if isl v then same_resources tr0 (trace t) else sha_busy tr0 (trace t))"
  using sha_res.partial [OF _ assms] by (cases v) auto

section \<open>Printing\<close>

lemma store_chars_inside:
  "off + length cs \<le> length buf \<Longrightarrow>
     store_chars buf off cs = Some (take off buf @ cs @ drop (off + length cs) buf)"
  by (simp add: store_chars_def)

lemma print_hex_run:
  assumes "2 * (i + length bs) < length buf"
  shows "\<exists>buf'. print_hex buf i bs = Some buf' \<and> length buf' = length buf \<and>
    take (2 * (i + length bs)) buf' = take (2 * i) buf @ concat (map hex2 bs) \<and>
    (bs \<noteq> [] \<longrightarrow> buf' ! (2 * (i + length bs)) = CHR 0x00)"
  using assms
proof (induction bs arbitrary: buf i)
  case Nil
  then show ?case by simp
next
  case (Cons b bs)
  let ?buf = "take (i * 2) buf @ (hex2 b @ [CHR 0x00]) @ drop (i * 2 + 3) buf"
  from Cons.prems have le: "i * 2 + 3 \<le> length buf" by simp
  then have st: "store_chars buf (i * 2) (hex2 b @ [CHR 0x00]) = Some ?buf"
    by (simp add: store_chars_def)
  from le have len: "length ?buf = length buf" by simp
  from Cons.prems len have "2 * (Suc i + length bs) < length ?buf" by simp
  from Cons.IH [OF this] obtain buf' where b': "print_hex ?buf (Suc i) bs = Some buf'"
    "length buf' = length buf"
    "take (2 * (Suc i + length bs)) buf' = take (2 * Suc i) ?buf @ concat (map hex2 bs)"
    "bs \<noteq> [] \<longrightarrow> buf' ! (2 * (Suc i + length bs)) = CHR 0x00"
    unfolding len by blast
  moreover have pre: "take (2 * Suc i) ?buf = take (2 * i) buf @ hex2 b"
    using Cons.prems by (simp add: mult.commute)
  moreover have "buf' ! (2 * Suc i) = CHR 0x00" if "bs = []"
  proof -
    have "buf' = ?buf" using b'(1) that by simp
    then show ?thesis using Cons.prems by (simp add: nth_append mult.commute hex2_def)
  qed
  ultimately show ?case
    using st by auto
qed

lemma c_string_prefix:
  assumes "take n buf = cs" and "CHR 0x00 \<notin> set cs" and "n < length buf"
    and "buf ! n = CHR 0x00"
  shows "c_string buf = cs"
proof -
  have "buf = cs @ CHR 0x00 # drop (Suc n) buf"
    using assms(1,3,4) by (metis Cons_nth_drop_Suc append_take_drop_id)
  moreover have "c_string (cs @ CHR 0x00 # rest) = cs" for rest
    using assms(2) by (induction cs) (auto simp: c_string_def)
  ultimately show ?thesis by metis
qed

section \<open>Properties\<close>

lemma sha_prepare_error:
  "run_state (sha_prepare env p) s = (Some rc, t) \<Longrightarrow> rc < 0"
  by (auto simp: sha_prepare_def run_iff)

lemma sha_loop_error:
  "run_state (loop_fuel fuel (sha_body env) x) s = (Some (Inl rc), t) \<Longrightarrow> rc = - EIO"
proof (induction fuel arbitrary: s x)
  case 0
  then show ?case by simp
next
  case (Suc n)
  then show ?case by (auto simp: run_iff sha_body_def)
qed

text \<open>When the loop is reached the file was opened and a hash operation set up.\<close>

definition sha_opened :: "cstr \<Rightarrow> event list \<Rightarrow> event list \<Rightarrow> bool" where
  "sha_opened p tr tr' \<longleftrightarrow> (\<exists>i f h. 0 \<le> r_rc f \<and> r_rc h = 0 \<and>
     tr' = tr @ [(Psa PsaCryptoInit, i), (Fs (FsOpen p [FS_O_READ]), f), (Psa PsaHashSetupSha256, h)])"

lemma sha_prepare_opened:
  "run_state (sha_prepare env p) s = (None, u) \<Longrightarrow> sha_opened p (trace s) (trace u)"
  by (auto simp: sha_prepare_def run_iff sha_opened_def)

lemma sha_opened_inv:
  assumes "sha_opened p tr (trace u)" and "readable env bs (trace u)"
  shows "sha_inv env bs () u"
  using assms by (auto simp: sha_inv_def sha_opened_def)

lemma sha_cases:
  fixes s t :: "'a io_scheme"
  assumes "run_state (calculate_file_sha256 env fuel p out) s = (Some (rc, out'), t)"
  shows "(run_state (sha_prepare env p) s = (Some rc, t) \<and> out' = out) \<or>
    (\<exists>u :: 'a io_scheme. run_state (sha_prepare env p) s = (None, u) \<and>
      run_state (loop_fuel fuel (sha_body env) ()) u = (Some (Inl rc), t) \<and> out' = out) \<or>
    (\<exists>(u :: 'a io_scheme) n w. run_state (sha_prepare env p) s = (None, u) \<and>
      run_state (loop_fuel fuel (sha_body env) ()) u = (Some (Inr n), w) \<and>
      run_state (sha_finish env out n) w = ((rc, out'), t))"
  using assms unfolding calculate_file_sha256_def by (auto simp: run_iff)

lemma calculate_frame:
  fixes s t :: "'a io_scheme"
  assumes "run_state (calculate_file_sha256 env fuel p out) s = (Some (rc, out'), t)"
  shows "same_resources (trace s) (trace t)"
  using sha_cases [OF assms] by (auto dest!: sha_prepare_res sha_loop_res dest: sha_finish_res)

lemma sha_correct_at:
  fixes s t :: "'a io_scheme"
  assumes "\<And>tr. sha_opened p (trace s) tr \<Longrightarrow> readable env bs tr" and "psa_hashes sha env"
    and "run_state (calculate_file_sha256 env fuel p out) s = (Some (0, out'), t)"
  shows "out' = sha bs"
proof -
  from sha_cases [OF assms(3)] obtain u :: "'a io_scheme" and n w where
    pr: "run_state (sha_prepare env p) s = (None, u)"
    and lp: "run_state (loop_fuel fuel (sha_body env) ()) u = (Some (Inr n), w)"
    and fi: "run_state (sha_finish env out n) w = ((0, out'), t)"
    by (auto dest: sha_prepare_error sha_loop_error)
  from fi obtain d where n: "0 \<le> n" and d: "answers env (trace w) (Psa PsaHashFinish) d"
    and "r_rc d = 0" "out' = r_data d"
    by (auto simp: sha_finish_def run_iff)
  moreover have "hash_input (trace w) = bs"
    using sha.partial [OF sha_opened_inv [OF sha_prepare_opened [OF pr]] lp]
      assms(1) [OF sha_prepare_opened [OF pr]] n by simp
  ultimately show ?thesis
    using assms(2) by (auto simp: psa_hashes_def answers_def)
qed

text \<open>
  C17: \<open>calculate_file_sha256\<close> hashes the file, all of it and nothing else: if the file
  holds \<open>bs\<close> and PSA computes \<open>sha\<close>, a zero return leaves \<open>sha bs\<close> in the output.
\<close>

theorem sha256_correct:
  fixes s t :: "'a io_scheme"
  assumes "file_content env bs" and "psa_hashes sha env"
    and "run_state (calculate_file_sha256 env fuel p out) s = (Some (0, out'), t)"
  shows "out' = sha bs"
  by (rule sha_correct_at [OF file_content_readable [OF assms(1)] assms(2,3)])

text \<open>A platform whose "hash" of a byte sequence is the one-byte sequence of its sum.\<close>

definition sum_env :: "byte list \<Rightarrow> env" where
  "sum_env bs tr c =
     (if c = Psa PsaHashFinish then (reply_rc 0)\<lparr>r_data := [sum_list (hash_input tr)]\<rparr>
      else sim_env bs tr c)"

lemma sum_env_content: "file_content (sum_env bs) bs"
  using sim_env_content [of bs] file_content_cong [of "sum_env bs" "sim_env bs"]
  by (simp add: sum_env_def)

lemma sum_env_hashes: "psa_hashes (\<lambda>d. [sum_list d]) (sum_env bs)"
  by (simp add: psa_hashes_def sum_env_def)

abbreviation sha_demo :: "(io, (int \<times> byte list) option) state" where
  "sha_demo \<equiv> calculate_file_sha256 (sum_env [1, 2, 3]) 5 ''/SD:/a.bin'' []"

lemma sha_demo_result: "result sha_demo io0 = Some (0, [6])"
  by code_simp

lemma sha_demo_run: "run_state sha_demo io0 = (Some (0, [6]), final sha_demo io0)"
  using run_result [of sha_demo io0] sha_demo_result by simp

theorem sha256_correct_witness: "[6] = [sum_list [1, 2, 3 :: byte]]"
  using sha256_correct [OF sum_env_content sum_env_hashes sha_demo_run] .

lemma sha_returns_at:
  fixes s :: "'a io_scheme"
  assumes "\<And>tr. sha_opened p (trace s) tr \<Longrightarrow> readable env bs tr" and "length bs < fuel"
  shows "\<exists>r t. run_state (calculate_file_sha256 env fuel p out) s = (Some r, t)"
proof -
  obtain x and u :: "'a io_scheme" where p: "run_state (sha_prepare env p) s = (x, u)"
    by (metis surj_pair)
  show ?thesis
  proof (cases x)
    case (Some rc)
    with p show ?thesis by (auto simp: calculate_file_sha256_def run_iff)
  next
    case None
    with p have "sha_inv env bs () u"
      using sha_opened_inv [OF sha_prepare_opened assms(1) [OF sha_prepare_opened]] by simp
    moreover have "length bs - read_pos (trace u) < fuel" using assms(2) by simp
    ultimately obtain v and w :: "'a io_scheme" where
      lp: "run_state (loop_fuel fuel (sha_body env) ()) u = (Some v, w)"
      using sha.total by blast
    show ?thesis
    proof (cases v)
      case (Inl rc)
      with p None lp show ?thesis by (auto simp: calculate_file_sha256_def run_iff)
    next
      case (Inr n)
      obtain q t where "run_state (sha_finish env out n) w = (q, t)" by (metis surj_pair)
      with p None lp Inr show ?thesis by (auto simp: calculate_file_sha256_def run_iff)
    qed
  qed
qed

text \<open>Whatever fails, the output keeps its 32 bytes if PSA's digest has 32.\<close>

lemma sha_output_length:
  assumes "\<And>tr. length (r_data (env tr (Psa PsaHashFinish))) = 32" and "length out = 32"
    and "run_state (calculate_file_sha256 env fuel p out) s = (Some (rc, out'), t)"
  shows "length out' = 32"
  using sha_cases [OF assms(3)] assms(1,2)
  by (auto simp: sha_finish_def run_iff answers_def split: if_splits)

text \<open>
  \<open>calculate_file_sha256\<close> returns on every file the read contract describes; any fuel
  above its length is enough.
\<close>

theorem sha256_returns:
  fixes s :: "'a io_scheme"
  assumes "file_content env bs" and "length bs < fuel"
  shows "\<exists>r t. run_state (calculate_file_sha256 env fuel p out) s = (Some r, t)"
  by (rule sha_returns_at [OF file_content_readable [OF assms(1)] assms(2)])

theorem sha256_returns_witness: "\<exists>r t. run_state sha_demo io0 = (Some r, t)"
  by (rule sha256_returns [OF sum_env_content]) simp

text \<open>
  whatever fails, \<open>calculate_file_sha256\<close> closes the file it opened and finishes or
  aborts the hash operation it set up, once each.
\<close>

theorem sha256_no_leak:
  fixes s t :: "'a io_scheme"
  assumes "run_state (calculate_file_sha256 env fuel p out) s = (Some (rc, out'), t)"
  shows "same_resources (trace s) (trace t)"
  by (rule calculate_frame [OF assms])

theorem sha256_no_leak_witness: "same_resources [] (trace (final sha_demo io0))"
  using sha256_no_leak [OF sha_demo_run] by (simp add: io0_def)

lemma print_hex_32:
  assumes "length sha256 = 32" and "length garbage = 65"
  shows "\<exists>buf. print_hex garbage 0 sha256 = Some buf \<and> c_string buf = concat (map hex2 sha256)"
proof -
  from print_hex_run [of 0 sha256 garbage] assms obtain buf where
    b: "print_hex garbage 0 sha256 = Some buf" "length buf = 65"
      "take 64 buf = concat (map hex2 sha256)" "buf ! 64 = CHR 0x00"
    by auto
  have "CHR 0x00 \<notin> set (concat (map hex2 sha256))" by (auto simp: hex2_not_NUL)
  with b have "c_string buf = concat (map hex2 sha256)" by (intro c_string_prefix) auto
  with b(1) show ?thesis by blast
qed

text \<open>The line printed for a digest.\<close>

definition digest_line :: "byte list \<Rightarrow> cstr \<Rightarrow> cstr" where
  "digest_line h name = concat (map hex2 h) @ ''  '' @ name @ [CHR 0x0A]"

lemma print_sha_prints:
  assumes "length sha256 = 32" and "length garbage = 65"
  shows "\<exists>r. run_state (print_sha256_sum env garbage sha256 name) s =
    (Some (), s\<lparr>trace := trace s @ [(Kern (Printk (digest_line sha256 name)), r)]\<rparr>)"
proof -
  from print_hex_32 [OF assms] obtain buf where
    "print_hex garbage 0 sha256 = Some buf" "c_string buf = concat (map hex2 sha256)" by blast
  then show ?thesis by (auto simp: print_sha256_sum_def run_eval digest_line_def)
qed

lemma print_sha_returns:
  assumes "length sha256 = 32" and "length garbage = 65"
  shows "\<exists>t. run_state (print_sha256_sum env garbage sha256 name) s = (Some (), t)"
  using print_sha_prints [OF assms] by blast

text \<open>An error return is always the failure of a call.\<close>

lemma sha_prepare_failed:
  "run_state (sha_prepare env p) s = (x, t) \<Longrightarrow>
     (if x = None then failed hash_kind (trace s) \<le> failed hash_kind (trace t)
      else failed hash_kind (trace s) < failed hash_kind (trace t))"
  by (auto simp: sha_prepare_def run_iff)

interpretation sha_failed: loop_contract "sha_body env"
    "\<lambda>_ s. k \<le> failed hash_kind (trace s)"
    "\<lambda>v s. case v of Inl rc \<Rightarrow> k < failed hash_kind (trace s)
       | Inr n \<Rightarrow> k \<le> failed hash_kind (trace s) \<and> (n < 0 \<longrightarrow> k < failed hash_kind (trace s))"
  by unfold_locales (auto simp: sha_body_def run_iff)

lemma sha_finish_failed:
  "run_state (sha_finish env out n) s = ((rc, out'), t) \<Longrightarrow> failed hash_kind (trace s) \<le> failed hash_kind (trace t) \<and>
     (rc \<noteq> 0 \<longrightarrow> n < 0 \<or> failed hash_kind (trace s) < failed hash_kind (trace t))"
  by (auto simp: sha_finish_def run_iff)

lemma sha_error_failed:
  fixes s t :: "'a io_scheme"
  assumes "run_state (calculate_file_sha256 env fuel p out) s = (Some (rc, out'), t)" and "rc \<noteq> 0"
  shows "failed hash_kind (trace s) < failed hash_kind (trace t)"
proof -
  consider "run_state (sha_prepare env p) s = (Some rc, t)"
    | (loop) u :: "'a io_scheme" where "run_state (sha_prepare env p) s = (None, u)"
        "run_state (loop_fuel fuel (sha_body env) ()) u = (Some (Inl rc), t)"
    | (finish) u :: "'a io_scheme" and n w where "run_state (sha_prepare env p) s = (None, u)"
        "run_state (loop_fuel fuel (sha_body env) ()) u = (Some (Inr n), w)"
        "run_state (sha_finish env out n) w = ((rc, out'), t)"
    using sha_cases [OF assms(1)] by blast
  then show ?thesis
  proof cases
    case 1
    with sha_prepare_failed show ?thesis by fastforce
  next
    case loop
    with sha_prepare_failed [OF loop(1)] sha_failed.partial [OF _ loop(2), of "failed hash_kind (trace s)"]
    show ?thesis by simp
  next
    case finish
    with sha_prepare_failed [OF finish(1)] sha_failed.partial [OF _ finish(2), of "failed hash_kind (trace s)"]
      sha_finish_failed [OF finish(3)] assms(2) show ?thesis by auto
  qed
qed

text \<open>
  C30: printing a digest stays inside the 65-byte buffer, whatever the buffer held, and
  leaves 64 digits behind which, two at a time, \<open>strtol\<close> reads back as the digest.
\<close>

theorem print_hex_roundtrip:
  assumes "length sha256 = 32" and "length garbage = 65"
  shows "\<exists>buf. print_hex garbage 0 sha256 = Some buf \<and> length (c_string buf) = 64 \<and>
    (\<forall>i < 32. strtol (take 2 (drop (2 * i) (c_string buf))) 16 = int (unat (sha256 ! i)))"
proof -
  from print_hex_32 [OF assms] obtain buf where b: "print_hex garbage 0 sha256 = Some buf"
    and c: "c_string buf = concat (map hex2 sha256)" by blast
  have "take 2 (drop (2 * i) (concat (map hex2 xs))) = hex2 (xs ! i)" if "i < length xs" for i xs
    using that
  proof (induction xs arbitrary: i)
    case Nil
    then show ?case by simp
  next
    case (Cons x xs)
    then show ?case by (cases i) auto
  qed
  moreover have "length (concat (map hex2 xs)) = 2 * length xs" for xs
    by (induction xs) auto
  ultimately show ?thesis
    using b c assms(1) by (auto simp: strtol_hex2)
qed

theorem print_hex_roundtrip_witness:
  "\<exists>buf. print_hex (replicate 65 CHR ''?'') 0 (replicate 32 171) = Some buf \<and>
     length (c_string buf) = 64 \<and>
     (\<forall>i < 32. strtol (take 2 (drop (2 * i) (c_string buf))) 16 = int (unat (replicate 32 (171 :: byte) ! i)))"
  by (rule print_hex_roundtrip) simp_all

end
