(* ===== verification/HttpClient.thy ===== *)
theory HttpClient
  imports Platform CString
begin

text \<open>
  \<open>src/http_client.c\<close>: blocking HTTP GET requests to the relay board, one TCP socket per
  request. The server address is the configuration's (\<open>SERVER_ADDR4\<close>), the requests are
  \<open>/get?value=Relay\<close> and \<open>/set?Relay=0|1\<close>. The HTTP client library is the platform's; the
  callback it invokes, \<open>response_cb\<close>, is modelled on the memory it writes.
\<close>

section \<open>Definitions\<close>

definition HTTP_PORT :: int where
  "HTTP_PORT = 80"

definition MAX_RECV_BUF_LEN :: nat where
  "MAX_RECV_BUF_LEN = 512"

text \<open>\<open>setup_socket\<close> always returns 0; what it creates is the socket and its address.\<close>

definition setup_socket ::
    "env \<Rightarrow> cstr \<Rightarrow> int \<Rightarrow> ('a io_scheme, int \<times> int \<times> sockaddr) state" where
  "setup_socket env server port = do {
     s \<leftarrow> ext_posix env (Net (SocketTcp AF_INET));
     State_Monad.return (0, r_rc s, SockaddrIn (word_of_int port) server)
   }"

text \<open>\<open>connect_socket\<close> returns its result and the socket it leaves in \<open>*sock\<close>.\<close>

definition connect_socket ::
    "env \<Rightarrow> cstr \<Rightarrow> int \<Rightarrow> ('a io_scheme, int \<times> int) state" where
  "connect_socket env server port = do {
     (ret, sock, addr) \<leftarrow> setup_socket env server port;
     (if ret < 0 \<or> sock < 0 then State_Monad.return (- 1, sock)
      else do {
        c \<leftarrow> ext_posix env (Net (Connect sock addr));
        (if r_rc c < 0 then do {
           _ \<leftarrow> ext_posix env (Net (SocketClose sock));
           e \<leftarrow> get_field errno;
           State_Monad.return (- e, - 1)
         } else State_Monad.return (r_rc c, sock))
      })
   }"

text \<open>A request is its host and its URL; the timeout is in milliseconds.\<close>

record http_request =
  host :: cstr
  url :: cstr

definition run_http_get_req ::
    "env \<Rightarrow> http_request \<Rightarrow> cstr \<Rightarrow> int \<Rightarrow> ('a io_scheme, int) state" where
  "run_http_get_req env req server port = do {
     (_, sock4) \<leftarrow> connect_socket env server port;
     (if sock4 < 0 then State_Monad.return (- ECONNABORTED)
      else do {
        _ \<leftarrow> ext_posix env (Net (HttpClientReq sock4 (host req) (url req) (3 * 1000)));
        _ \<leftarrow> ext_posix env (Net (SocketClose sock4));
        State_Monad.return 0
      })
   }"

definition run_get_SK_v :: "env \<Rightarrow> cstr \<Rightarrow> ('a io_scheme, int) state" where
  "run_get_SK_v env server = do {
     _ \<leftarrow> run_http_get_req env \<lparr>host = server, url = ''/get?value=Relay''\<rparr> server HTTP_PORT;
     State_Monad.return 0
   }"

definition set_url :: "byte \<Rightarrow> cstr" where
  "set_url v = (if v = 0 then ''/set?Relay=0'' else ''/set?Relay=1'')"

definition run_set_SK_v :: "env \<Rightarrow> cstr \<Rightarrow> byte \<Rightarrow> ('a io_scheme, int) state" where
  "run_set_SK_v env server v = do {
     _ \<leftarrow> run_http_get_req env \<lparr>host = server, url = set_url v\<rparr> server HTTP_PORT;
     State_Monad.return 0
   }"

definition run_queries :: "env \<Rightarrow> cstr \<Rightarrow> ('a io_scheme, int) state" where
  "run_queries env server = do {
     (_, sock4) \<leftarrow> connect_socket env server HTTP_PORT;
     (if sock4 < 0 then State_Monad.return (- ECONNABORTED)
      else do {
        r \<leftarrow> ext_posix env (Net (HttpClientReq sock4 server ''/get?value=Relay'' (3 * 1000)));
        _ \<leftarrow> ext_posix env (Net (SocketClose sock4));
        State_Monad.return (r_rc r)
      })
   }"

text \<open>
  \<open>response_cb\<close> terminates the received data in the receive buffer; \<open>None\<close> is a store
  outside of the buffer.
\<close>

definition response_cb :: "byte list \<Rightarrow> nat \<Rightarrow> byte list option" where
  "response_cb recv_buf data_len =
     (if data_len < length recv_buf then Some (recv_buf[data_len := 0]) else None)"

section \<open>Requests of a trace\<close>

fun request_url :: "event \<Rightarrow> cstr list" where
  "request_url (Net (HttpClientReq s h u t), r) = [u]"
| "request_url _ = []"

definition requests :: "event list \<Rightarrow> cstr list" where
  "requests tr = concat (map request_url tr)"

lemma requests_append [simp]: "requests (xs @ ys) = requests xs @ requests ys"
  by (simp add: requests_def)

lemma requests_Cons [simp]: "requests (e # es) = request_url e @ requests es"
  by (simp add: requests_def)

lemma requests_Nil [simp]: "requests [] = []"
  by (simp add: requests_def)

lemmas http_defs = setup_socket_def connect_socket_def run_http_get_req_def

lemma run_http_get_req_trace:
  "run_state (run_http_get_req env req server port) s = (r, t) \<Longrightarrow>
     same_resources (trace s) (trace t) \<and>
     (r = - ECONNABORTED \<and> requests (trace t) = requests (trace s) \<or>
      r = 0 \<and> requests (trace t) = requests (trace s) @ [url req])"
  by (auto simp: http_defs run_iff same_resources_def)

section \<open>Properties\<close>

lemma run_queries_trace:
  "run_state (run_queries env server) s = (r, t) \<Longrightarrow> same_resources (trace s) (trace t)"
  by (auto simp: http_defs run_queries_def run_iff same_resources_def)

text \<open>
  every request path closes the socket it opened, once, whether the socket, the
  connection or the request fails: getting and setting the relay and \<open>run_queries\<close> hold
  the resources afterwards that they held before.
\<close>

theorem http_sockets_balanced:
  "same_resources (trace s) (trace (final (run_get_SK_v env server) s)) \<and>
   same_resources (trace s) (trace (final (run_set_SK_v env server v) s)) \<and>
   same_resources (trace s) (trace (final (run_queries env server) s))"
proof -
  have "same_resources (trace s) (trace t)" if "run_state (run_get_SK_v env server) s = (r, t)" for r t
    using that by (auto simp: run_get_SK_v_def run_iff dest!: run_http_get_req_trace)
  moreover have "same_resources (trace s) (trace t)" if "run_state (run_set_SK_v env server v) s = (r, t)" for r t
    using that by (auto simp: run_set_SK_v_def run_iff dest!: run_http_get_req_trace)
  ultimately show ?thesis
    using run_queries_trace run_result by metis
qed

text \<open>
  setting the relay sends exactly the one request that \<open>v\<close> stands for, or none when no
  connection could be made; it returns 0 in either case, so its caller cannot tell whether
  the relay was switched.
\<close>

theorem run_set_SK_v_requests:
  assumes "run_state (run_set_SK_v env server v) s = (r, t)"
  shows "r = 0 \<and> (requests (trace t) = requests (trace s) \<or>
    requests (trace t) = requests (trace s) @ [if v = 0 then ''/set?Relay=0'' else ''/set?Relay=1''])"
  using assms by (auto simp: run_set_SK_v_def set_url_def run_iff dest!: run_http_get_req_trace)

theorem run_set_SK_v_requests_witness:
  "requests (trace (final (run_set_SK_v (sim_env []) ''10.0.0.1'' 1) io0)) = [''/set?Relay=1'']"
proof -
  have "requests (trace (final (run_set_SK_v (sim_env []) ''10.0.0.1'' 1) io0)) \<noteq> []"
    by code_simp
  then show ?thesis
    using run_set_SK_v_requests [OF run_result, of "sim_env []" "''10.0.0.1''" 1 io0]
    by (simp add: io0_def)
qed

text \<open>
  \<open>response_cb\<close> writes one byte behind the received data, so a response that fills the
  512-byte buffer makes it write outside of it; every shorter response is terminated in
  place and otherwise unchanged.
\<close>

theorem response_cb_bounds:
  assumes "length recv_buf = MAX_RECV_BUF_LEN"
  shows "(data_len < 512 \<longrightarrow> response_cb recv_buf data_len = Some (take data_len recv_buf @ 0 # drop (Suc data_len) recv_buf)) \<and>
    response_cb recv_buf 512 = None"
  using assms by (auto simp: response_cb_def MAX_RECV_BUF_LEN_def upd_conv_take_nth_drop)

theorem response_cb_bounds_witness:
  "response_cb (replicate 512 7) 3 = Some (take 3 (replicate 512 7) @ 0 # drop (Suc 3) (replicate 512 7)) \<and>
   response_cb (replicate 512 7) 512 = None"
  using response_cb_bounds [of "replicate 512 7" 3] by (simp add: MAX_RECV_BUF_LEN_def)

end
