(* ===== verification/HttpDl.thy ===== *)
theory HttpDl
  imports Fatfs Sha256sum "HOL-Library.Signed_Division"
begin

text \<open>
  \<open>src/http_dl.c\<close>: downloading a file over HTTP into the SD card, with a progress bar that
  is refreshed at most once per second, and printing the digest of what was saved. The
  HTTP library parses the stream and calls \<open>http_dl_response_cb\<close>; the arguments of the calls it
  makes in a request are a parameter of the model.
\<close>

section \<open>Definitions\<close>

text \<open>
  What the callback reads of \<open>struct http_response\<close> and its \<open>final_data\<close> argument.
\<close>

record http_rsp =
  cl_present :: bool
  content_length :: u32
  body_found :: bool
  body_frag :: "byte list"
  is_final :: bool

definition body_frag_len :: "http_rsp \<Rightarrow> u32" where
  "body_frag_len rsp = of_nat (length (body_frag rsp))"

record download_ctx =
  last_print_time :: int
  total_written :: u32
  total_size :: u32
  has_size :: bool

definition note_size :: "http_rsp \<Rightarrow> download_ctx \<Rightarrow> download_ctx" where
  "note_size rsp ctx =
     (if cl_present rsp \<and> \<not> has_size ctx
      then ctx\<lparr>total_size := content_length rsp, has_size := True\<rparr> else ctx)"

text \<open>
  The percentage is a 64-bit quotient converted to \<open>int\<close>; the bar is 20 characters wide.
\<close>

definition percent_of :: "u32 \<Rightarrow> u32 \<Rightarrow> int" where
  "percent_of written n =
     (let percent = sint (ucast ((ucast written :: u64) * 100 div ucast n) :: u32)
      in if percent > 100 then 100 else percent)"

definition progress_bar :: "int \<Rightarrow> cstr" where
  "progress_bar percent =
     map (\<lambda>i. if int i < percent sdiv 5 then CHR ''='' else CHR '' '') [0..<20]"

definition print_progress :: "env \<Rightarrow> download_ctx \<Rightarrow> ('a io_scheme, unit) state" where
  "print_progress env ctx =
     (if has_size ctx \<and> total_size ctx > 0 then do {
        let percent = percent_of (total_written ctx) (total_size ctx);
        _ \<leftarrow> ext env (Shell (ShellProgress (progress_bar percent) percent
               (total_written ctx) (total_size ctx)));
        State_Monad.return ()
      } else do {
        _ \<leftarrow> ext env (Shell (ShellBytes (total_written ctx)));
        State_Monad.return ()
      })"

definition report_progress :: "env \<Rightarrow> bool \<Rightarrow> download_ctx \<Rightarrow> ('a io_scheme, download_ctx) state" where
  "report_progress env fin ctx = do {
     now \<leftarrow> ext env (Kern KUptimeGet);
     (if fin \<or> r_rc now - last_print_time ctx \<ge> 1000 then do {
        let ctx = ctx\<lparr>last_print_time := r_rc now\<rparr>;
        _ \<leftarrow> print_progress env ctx;
        (if fin then do {
           _ \<leftarrow> ext env (Shell ShellDownloadDone);
           State_Monad.return ctx
         } else State_Monad.return ctx)
      } else State_Monad.return ctx)
   }"

definition http_dl_response_cb ::
    "env \<Rightarrow> http_rsp \<Rightarrow> download_ctx \<Rightarrow> ('a io_scheme, int \<times> download_ctx) state" where
  "http_dl_response_cb env rsp ctx = do {
     let ctx = note_size rsp ctx;
     (if body_found rsp \<and> body_frag_len rsp > 0 then do {
        w \<leftarrow> ext env (Fs (FsWrite (body_frag rsp)));
        (if r_rc w < 0 then State_Monad.return (r_rc w, ctx)
         else do {
           ctx \<leftarrow> report_progress env (is_final rsp)
                    (ctx\<lparr>total_written := total_written ctx + body_frag_len rsp\<rparr>);
           State_Monad.return (0, ctx)
         })
      } else do {
        ctx \<leftarrow> report_progress env (is_final rsp) ctx;
        State_Monad.return (0, ctx)
      })
   }"

text \<open>
  The calls of the callback during one request. Which pieces the library hands over and when
  it stops (on an error, on a callback that failed, at the end) is the library's: \<open>rsps\<close> is an
  arbitrary list, and what \<open>http_client_req\<close> returns is independent of it (the source only logs
  it), so that every behaviour of the library is covered.
\<close>

fun deliver ::
    "env \<Rightarrow> http_rsp list \<Rightarrow> download_ctx \<Rightarrow> ('a io_scheme, download_ctx) state" where
  "deliver env [] ctx = State_Monad.return ctx"
| "deliver env (rsp # rsps) ctx = do {
     (_, ctx) \<leftarrow> http_dl_response_cb env rsp ctx;
     deliver env rsps ctx
   }"

text \<open>
  \<open>http_dl_socket_init\<close> returns its result, the socket and the address; the caller's
  socket variable holds -1 before the call.
\<close>

definition http_dl_socket_init ::
    "env \<Rightarrow> cstr \<Rightarrow> cstr \<Rightarrow> int \<Rightarrow> ('a io_scheme, int \<times> int \<times> sockaddr) state" where
  "http_dl_socket_init env hostname port sock = do {
     a \<leftarrow> ext_posix env (Net (GetAddrInfo hostname port));
     (if r_rc a \<noteq> 0 then State_Monad.return (- 1, sock, SockaddrResolved [])
      else do {
        s \<leftarrow> ext_posix env (Net (SocketTcp AF_INET));
        State_Monad.return (r_rc a, r_rc s, SockaddrResolved (r_data a))
      })
   }"

definition http_dl_socket_connect ::
    "env \<Rightarrow> cstr \<Rightarrow> cstr \<Rightarrow> int \<Rightarrow> ('a io_scheme, int \<times> int) state" where
  "http_dl_socket_connect env hostname port sock = do {
     (ret, sock, addr) \<leftarrow> http_dl_socket_init env hostname port sock;
     (if ret < 0 \<or> sock < 0 then State_Monad.return (- 1, sock)
      else do {
        c \<leftarrow> ext_posix env (Net (Connect sock addr));
        (if r_rc c < 0 then do {
           _ \<leftarrow> ext_posix env (Net (SocketClose sock));
           e \<leftarrow> get_field errno;
           State_Monad.return (- e, - 1)
         } else State_Monad.return (r_rc c, sock))
      })
   }"

definition http_dl_get_req ::
    "env \<Rightarrow> http_rsp list \<Rightarrow> cstr \<Rightarrow> cstr \<Rightarrow> cstr \<Rightarrow> download_ctx \<Rightarrow>
       ('a io_scheme, int \<times> download_ctx) state" where
  "http_dl_get_req env rsps hostname port path ctx = do {
     (_, sock4) \<leftarrow> http_dl_socket_connect env hostname port (- 1);
     (if sock4 < 0 then State_Monad.return (- ECONNABORTED, ctx)
      else do {
        _ \<leftarrow> ext_posix env (Net (HttpClientReq sock4 hostname path (5 * 60 * 1000)));
        ctx \<leftarrow> deliver env rsps ctx;
        _ \<leftarrow> ext_posix env (Net (SocketClose sock4));
        State_Monad.return (0, ctx)
      })
   }"

text \<open>
  \<open>http_dl_file\<close>: \<open>None\<close> is a digest that is still being computed (or a digest too long
  for the print buffer); \<open>garbage\<close> is the uninitialised print buffer.
\<close>

definition ctx_init :: download_ctx where
  "ctx_init = \<lparr>last_print_time = 0, total_written = 0, total_size = 0, has_size = False\<rparr>"

definition dl_digest :: "env \<Rightarrow> nat \<Rightarrow> char list \<Rightarrow> cstr \<Rightarrow> ('a io_scheme, int option) state" where
  "dl_digest env fuel garbage full_path = do {
     d \<leftarrow> calculate_file_sha256 env fuel full_path (replicate 32 0);
     (case d of
        None \<Rightarrow> State_Monad.return None
      | Some v \<Rightarrow> do {
          p \<leftarrow> print_sha256_sum env garbage (snd v) full_path;
          State_Monad.return (case p of None \<Rightarrow> None | Some _ \<Rightarrow> Some 0)
        })
   }"

definition http_dl_file ::
    "env \<Rightarrow> http_rsp list \<Rightarrow> nat \<Rightarrow> char list \<Rightarrow> cstr \<Rightarrow> cstr \<Rightarrow> cstr \<Rightarrow> cstr \<Rightarrow>
       ('a io_scheme, int option) state" where
  "http_dl_file env rsps fuel garbage hostname port path save_path = do {
     let full_path = snprintf_path 128 fatfs_get_root_path save_path;
     f \<leftarrow> ext env (Fs (FsOpen full_path [FS_O_CREATE, FS_O_WRITE]));
     (if r_rc f < 0 then State_Monad.return (Some (r_rc f))
      else do {
        _ \<leftarrow> http_dl_get_req env rsps hostname port path ctx_init;
        _ \<leftarrow> ext env (Fs FsClose);
        dl_digest env fuel garbage full_path
      })
   }"

definition cmd_http_dl ::
    "env \<Rightarrow> http_rsp list \<Rightarrow> nat \<Rightarrow> char list \<Rightarrow> cstr list \<Rightarrow> ('a io_scheme, int option) state" where
  "cmd_http_dl env rsps fuel garbage argv =
     (if length argv < 5 then State_Monad.return (Some (- EINVAL))
      else do {
        let hostname = argv ! 1; let port = argv ! 2;
        let path = argv ! 3; let save_path = argv ! 4;
        _ \<leftarrow> ext env (Shell (ShellText ''download ...''));
        _ \<leftarrow> ext env (Shell (ShellText (''server: '' @ hostname @ '':'' @ port)));
        _ \<leftarrow> ext env (Shell (ShellText (''URL Path: '' @ path)));
        _ \<leftarrow> ext env (Shell (ShellText (''Save Path: '' @ save_path)));
        ret \<leftarrow> http_dl_file env rsps fuel garbage hostname port path save_path;
        (case ret of
           None \<Rightarrow> State_Monad.return None
         | Some r \<Rightarrow>
             if r < 0 then do {
               _ \<leftarrow> ext env (Shell (ShellText ''download failed : %d''));
               State_Monad.return (Some r)
             } else do {
               _ \<leftarrow> ext env (Shell (ShellText ''Download Success!''));
               State_Monad.return (Some 0)
             })
      })"

section \<open>What a download does\<close>

text \<open>The body bytes a piece carries, and the bytes the file system took from a trace's writes.\<close>

definition payload :: "http_rsp \<Rightarrow> byte list" where
  "payload rsp = (if body_found rsp then body_frag rsp else [])"

fun taken :: "event \<Rightarrow> byte list" where
  "taken (Fs (FsWrite d), r) = take (nat (r_rc r)) d"
| "taken _ = []"

definition stored :: "event list \<Rightarrow> byte list" where
  "stored tr = concat (map taken tr)"

lemma stored_append [simp]: "stored (xs @ ys) = stored xs @ stored ys"
  by (simp add: stored_def)

lemma stored_Cons [simp]: "stored (e # es) = taken e @ stored es"
  by (simp add: stored_def)

lemma stored_Nil [simp]: "stored [] = []"
  by (simp add: stored_def)

text \<open>The pieces fit the receive buffer (\<open>MAX_DL_RECV_BUF_LEN\<close>).\<close>

definition MAX_DL_RECV_BUF_LEN :: nat where
  "MAX_DL_RECV_BUF_LEN = 1024"

definition pieces_fit :: "http_rsp list \<Rightarrow> bool" where
  "pieces_fit rsps \<longleftrightarrow> (\<forall>rsp \<in> set rsps. length (body_frag rsp) \<le> MAX_DL_RECV_BUF_LEN)"

lemma frag_len_zero:
  "length (body_frag rsp) \<le> MAX_DL_RECV_BUF_LEN \<Longrightarrow> \<not> 0 < body_frag_len rsp \<Longrightarrow> body_frag rsp = []"
  by (auto simp: body_frag_len_def MAX_DL_RECV_BUF_LEN_def word_gt_0 of_nat_eq_0_iff
      dest!: arg_cong [of _ _ unat] simp: unat_of_nat_small)

lemma payload_len:
  "length (body_frag rsp) \<le> MAX_DL_RECV_BUF_LEN \<Longrightarrow>
    of_nat (length (payload rsp)) = (if body_found rsp \<and> body_frag_len rsp > 0 then body_frag_len rsp else 0)"
  using frag_len_zero [of rsp] by (auto simp: payload_def body_frag_len_def word_gt_0)

lemma note_size_written [simp]:
  "total_written (note_size rsp ctx) = total_written ctx"
  "last_print_time (note_size rsp ctx) = last_print_time ctx"
  by (simp_all add: note_size_def)

lemma report_progress_effect:
  "run_state (report_progress env fin ctx) s = (ctx', t) \<Longrightarrow>
     total_written ctx' = total_written ctx \<and> stored (trace t) = stored (trace s) \<and>
     failed transfer_kind (trace t) = failed transfer_kind (trace s) \<and>
     same_resources (trace s) (trace t) \<and> addrinfos (trace t) = addrinfos (trace s)"
  by (auto simp: report_progress_def print_progress_def run_iff same_resources_def)

lemma response_cb_effect:
  assumes "run_state (http_dl_response_cb env rsp ctx) s = ((rc, ctx'), t)"
    and "length (body_frag rsp) \<le> MAX_DL_RECV_BUF_LEN"
  shows "failed transfer_kind (trace s) \<le> failed transfer_kind (trace t) \<and>
    (failed transfer_kind (trace t) = failed transfer_kind (trace s) \<longrightarrow>
      rc = 0 \<and> total_written ctx' = total_written ctx + of_nat (length (payload rsp)) \<and>
      stored (trace t) = stored (trace s) @ payload rsp)"
  using assms(1) frag_len_zero [OF assms(2)] unfolding http_dl_response_cb_def payload_len [OF assms(2)]
  by (auto simp: run_iff payload_def dest!: report_progress_effect split: if_splits)

lemma response_cb_frame:
  "run_state (http_dl_response_cb env rsp ctx) s = (r, t) \<Longrightarrow>
     same_resources (trace s) (trace t) \<and> addrinfos (trace t) = addrinfos (trace s)"
  unfolding http_dl_response_cb_def
  by (auto simp: run_iff same_resources_def dest!: report_progress_effect)

lemma deliver_frame:
  "run_state (deliver env rsps ctx) s = (r, t) \<Longrightarrow>
     same_resources (trace s) (trace t) \<and> addrinfos (trace t) = addrinfos (trace s)"
proof (induction rsps arbitrary: ctx s)
  case Nil
  then show ?case by (simp add: run_iff)
next
  case (Cons rsp rsps)
  then show ?case
    by (auto simp: run_iff dest!: response_cb_frame Cons.IH intro: same_resources_trans)
qed

section \<open>Properties\<close>

lemma deliver_stored:
  assumes "run_state (deliver env rsps ctx) s = (ctx', t)" and "pieces_fit rsps"
  shows "failed transfer_kind (trace s) \<le> failed transfer_kind (trace t) \<and>
    (failed transfer_kind (trace t) = failed transfer_kind (trace s) \<longrightarrow>
      stored (trace t) = stored (trace s) @ concat (map payload rsps) \<and>
      total_written ctx' = total_written ctx + of_nat (length (concat (map payload rsps))))"
  using assms
proof (induction rsps arbitrary: ctx s)
  case Nil
  then show ?case by (auto simp: run_iff)
next
  case (Cons rsp rsps)
  from Cons.prems(1) obtain rc ctx1 u where
      cb: "run_state (http_dl_response_cb env rsp ctx) s = ((rc, ctx1), u)" and
      rest: "run_state (deliver env rsps ctx1) u = (ctx', t)"
    by (auto simp: run_iff)
  from Cons.IH [OF rest] response_cb_effect [OF cb] Cons.prems(2) show ?case
    by (auto simp: pieces_fit_def)
qed

text \<open>
  a request in which no write fails or is cut short has written every body byte it was handed,
  in order, and counted them: the counter grows by their number modulo \<open>2^32\<close>.
\<close>

theorem download_stored:
  assumes "run_state (deliver env rsps ctx) s = (ctx', t)" and "pieces_fit rsps"
    and "failed transfer_kind (trace t) = failed transfer_kind (trace s)"
  shows "stored (trace t) = stored (trace s) @ concat (map payload rsps) \<and>
    total_written ctx' = total_written ctx + of_nat (length (concat (map payload rsps)))"
  using deliver_stored [OF assms(1,2)] assms(3) by blast

definition two_pieces :: "http_rsp list" where
  "two_pieces =
     [\<lparr>cl_present = True, content_length = 3, body_found = True, body_frag = [1, 2], is_final = False\<rparr>,
      \<lparr>cl_present = True, content_length = 3, body_found = True, body_frag = [3], is_final = True\<rparr>]"

lemma two_pieces_fit: "pieces_fit two_pieces"
  by (simp add: pieces_fit_def two_pieces_def MAX_DL_RECV_BUF_LEN_def)

lemma two_pieces_payload: "concat (map payload two_pieces) = [1, 2, 3]"
  by (simp add: two_pieces_def payload_def)

theorem download_stored_witness:
  "stored (trace (final (deliver (sim_env []) two_pieces ctx_init) io0)) = [1, 2, 3]"
proof -
  have "failed transfer_kind (trace (final (deliver (sim_env []) two_pieces ctx_init) io0)) = 0" by code_simp
  then show ?thesis
    using download_stored [OF run_result two_pieces_fit, of "sim_env []" ctx_init io0]
    by (simp add: io0_def two_pieces_payload)
qed

text \<open>
  the counter trusts the piece, not the file system: whenever a write does not fail,
  the callback counts the whole piece, also when the file system took fewer bytes, so a
  full card makes the reported size exceed what was stored.
\<close>

theorem short_write_counted:
  assumes "answers env (trace s) (Fs (FsWrite (body_frag rsp))) r" and "0 \<le> r_rc r"
    and "r_rc r < int (length (body_frag rsp))"
    and "body_found rsp" and "0 < body_frag_len rsp"
    and "run_state (http_dl_response_cb env rsp ctx) s = ((rc, ctx'), t)"
  shows "rc = 0 \<and> total_written ctx' = total_written ctx + body_frag_len rsp \<and>
    stored (trace t) = stored (trace s) @ take (nat (r_rc r)) (body_frag rsp)"
  using assms unfolding http_dl_response_cb_def
  by (auto simp: run_iff answers_def dest!: report_progress_effect)

definition full_card :: env where
  "full_card = sim_over [(Fs (FsWrite [1, 2]), reply_rc 1)] (sim_env [])"

theorem short_write_counted_witness:
  "total_written (snd (result (http_dl_response_cb full_card (hd two_pieces) ctx_init) io0)) = 2 \<and>
   stored (trace (final (http_dl_response_cb full_card (hd two_pieces) ctx_init) io0)) = [1]"
proof -
  have "answers full_card (trace io0) (Fs (FsWrite (body_frag (hd two_pieces)))) (reply_rc 1)"
    by (simp add: answers_def full_card_def sim_over_def two_pieces_def)
  from short_write_counted [OF this _ _ _ _ run_pair]
  show ?thesis
    by (simp add: two_pieces_def body_frag_len_def reply_rc_def ctx_init_def io0_def)
qed

lemma signed_take_bit_small: "k < 2 ^ 31 \<Longrightarrow> signed_take_bit 31 (int k) = int k"
  by (intro signed_take_bit_int_eq_self) simp_all

lemma sint_ucast_small:
  assumes "unat (v :: u64) < 2 ^ 31"
  shows "sint (ucast v :: u32) = int (unat v)"
proof -
  have "unat (ucast v :: u32) = unat v"
    using assms by (simp add: unsigned_ucast_eq take_bit_nat_eq_self)
  then have "uint (ucast v :: u32) = int (unat v)"
    by (metis uint_nat)
  then show ?thesis
    using signed_take_bit_small [OF assms] by (simp add: sint_uint)
qed

lemma progress_bar_filled:
  assumes "k \<le> 100"
  shows "progress_bar (int k) = replicate (k div 5) (CHR ''='') @ replicate (20 - k div 5) (CHR '' '')"
proof -
  have "int k sdiv 5 = int (k div 5)"
    by (simp add: signed_divide_int_def zdiv_int sgn_if)
  with assms show ?thesis
    by (intro nth_equalityI) (auto simp: progress_bar_def nth_append)
qed

lemma unat_percent:
  "unat ((ucast (w :: u32) :: u64) * 100 div ucast (n :: u32)) = unat w * 100 div unat n"
proof -
  have "unat w * 100 < 2 ^ 64" using unat_u32_lt [of w] by simp
  then have "unat ((ucast w :: u64) * 100) = unat w * 100"
    by (simp add: unat_word_ariths)
  then show ?thesis by (simp add: unat_div_distrib)
qed

lemma percent_le:
  assumes "0 < n" and "w \<le> n"
  shows "w * 100 div n \<le> (100 :: nat)"
proof -
  have "w * 100 div n \<le> 100 * n div n" using assms(2) by (intro div_le_mono) simp
  with assms(1) show ?thesis by simp
qed

text \<open>
  while the counter is within the announced size, the percentage is the exact quotient
  rounded down, lies between 0 and 100, and the bar shows one \<open>=\<close> per full 5 percent, all
  on the left of a 20-character field.
\<close>

theorem progress_exact:
  assumes "0 < n" and "w \<le> n"
  shows "percent_of w n = int (unat w * 100 div unat n) \<and>
    percent_of w n \<in> {0..100} \<and>
    progress_bar (percent_of w n) =
      replicate (nat (percent_of w n div 5)) (CHR ''='') @
      replicate (20 - nat (percent_of w n div 5)) (CHR '' '')"
proof -
  let ?q = "unat w * 100 div unat n"
  let ?v = "(ucast w :: u64) * 100 div ucast n"
  from assms have q: "?q \<le> 100"
    by (intro percent_le) (simp_all add: unat_gt_0 word_gt_0 word_le_nat_alt)
  then have "sint (ucast ?v :: u32) = int ?q"
    using sint_ucast_small [of ?v] by (simp add: unat_percent)
  then have p: "percent_of w n = int ?q"
    using q by (simp add: percent_of_def Let_def)
  note progress_bar_filled [OF q]
  with p q show ?thesis by (simp add: nat_div_distrib)
qed

theorem progress_exact_witness:
  "percent_of 50 120 = 41 \<and>
   progress_bar (percent_of 50 120) = replicate 8 (CHR ''='') @ replicate 12 (CHR '' '')"
proof -
  have *: "percent_of 50 120 = 41" using progress_exact [of 120 50] by simp
  show ?thesis using progress_exact [of 120 50] unfolding * by simp
qed

text \<open>The progress lines of a trace.\<close>

fun is_progress :: "event \<Rightarrow> bool" where
  "is_progress (Shell (ShellProgress b p w n), r) = True"
| "is_progress (Shell (ShellBytes w), r) = True"
| "is_progress _ = False"

definition progress_lines :: "event list \<Rightarrow> nat" where
  "progress_lines tr = length (filter is_progress tr)"

lemma progress_lines_append [simp]:
  "progress_lines (xs @ ys) = progress_lines xs + progress_lines ys"
  by (simp add: progress_lines_def)

lemma progress_lines_Cons [simp]:
  "progress_lines (e # es) = (if is_progress e then Suc (progress_lines es) else progress_lines es)"
  by (simp add: progress_lines_def)

lemma progress_lines_Nil [simp]: "progress_lines [] = 0"
  by (simp add: progress_lines_def)

lemma response_cb_throttle:
  assumes "run_state (http_dl_response_cb env rsp ctx) s = ((rc, ctx'), t)" and "\<not> is_final rsp"
  shows "1000 * int (progress_lines (trace t)) - last_print_time ctx'
      \<le> 1000 * int (progress_lines (trace s)) - last_print_time ctx"
proof -
  have rep: "1000 * int (progress_lines (trace w)) - last_print_time c'
      \<le> 1000 * int (progress_lines (trace u)) - last_print_time c"
    if "run_state (report_progress env False c) u = (c', w)" for c c' u w
    using that by (auto simp: report_progress_def print_progress_def run_iff)
  show ?thesis
    using assms unfolding http_dl_response_cb_def
    by (auto simp: run_iff dest!: rep)
qed

text \<open>
  progress is throttled: while a download runs, \<open>k\<close> progress lines take at least \<open>k\<close>
  seconds of uptime, however many pieces arrive and whatever the clock does; only the
  final piece prints regardless of the time.
\<close>

theorem progress_throttled:
  assumes "run_state (deliver env rsps ctx) s = (ctx', t)"
    and "\<forall>rsp \<in> set rsps. \<not> is_final rsp"
  shows "1000 * (int (progress_lines (trace t)) - int (progress_lines (trace s)))
      \<le> last_print_time ctx' - last_print_time ctx"
  using assms
proof (induction rsps arbitrary: ctx s)
  case Nil
  then show ?case by (auto simp: run_iff)
next
  case (Cons rsp rsps)
  then obtain r1 ctx1 u where cb: "run_state (http_dl_response_cb env rsp ctx) s = ((r1, ctx1), u)"
    and rest: "run_state (deliver env rsps ctx1) u = (ctx', t)"
    by (auto simp: run_iff)
  from response_cb_throttle [OF cb] Cons.prems(2) have
    "1000 * int (progress_lines (trace u)) - last_print_time ctx1
      \<le> 1000 * int (progress_lines (trace s)) - last_print_time ctx" by simp
  with rest Cons.IH [of ctx1 u] Cons.prems(2) show ?case by fastforce
qed

theorem progress_throttled_witness:
  "1000 * int (progress_lines (trace (final (deliver (sim_env []) [hd two_pieces] ctx_init) io0)))
     \<le> last_print_time (result (deliver (sim_env []) [hd two_pieces] ctx_init) io0)"
  using progress_throttled [OF run_result, of "[hd two_pieces]" "sim_env []" ctx_init io0]
  by (simp add: two_pieces_def ctx_init_def io0_def)

section \<open>The saved file\<close>

text \<open>
  The file that is written, and the position in it: \<open>FS_O_CREATE | FS_O_WRITE\<close> keeps the
  content of an existing file and starts at its beginning; a write overwrites.
\<close>

fun image_after :: "byte list \<times> nat \<Rightarrow> event \<Rightarrow> byte list \<times> nat" where
  "image_after (f, p) (Fs (FsOpen n fl), r) = (f, if r_rc r < 0 then p else 0)"
| "image_after (f, p) (Fs (FsWrite d), r) =
     (take p f @ take (nat (r_rc r)) d @ drop (p + length (take (nat (r_rc r)) d)) f,
      p + length (take (nat (r_rc r)) d))"
| "image_after (f, p) _ = (f, p)"

definition image :: "byte list \<Rightarrow> event list \<Rightarrow> byte list \<times> nat" where
  "image old tr = foldl image_after (old, 0) tr"

lemma image_append: "image old (tr @ es) = foldl image_after (image old tr) es"
  by (simp add: image_def)

fun plain :: "event \<Rightarrow> bool" where
  "plain (Fs (FsWrite d), r) = True"
| "plain (Kern k, r) = True"
| "plain (Shell k, r) = True"
| "plain _ = False"

lemma image_plain:
  assumes "\<forall>e \<in> set es. plain e" and "p \<le> length f"
  shows "foldl image_after (f, p) es =
    (take p f @ stored es @ drop (p + length (stored es)) f, p + length (stored es))"
  using assms
proof (induction es arbitrary: f p)
  case Nil
  then show ?case by simp
next
  case (Cons e es)
  then show ?case by (cases e rule: plain.cases) (auto simp: ac_simps min_def)
qed

lemma response_cb_plain:
  "run_state (http_dl_response_cb env rsp ctx) s = (r, t) \<Longrightarrow>
     \<exists>es. trace t = trace s @ es \<and> (\<forall>e \<in> set es. plain e)"
  unfolding http_dl_response_cb_def report_progress_def print_progress_def
  by (auto simp: run_iff)

lemma deliver_plain:
  "run_state (deliver env rsps ctx) s = (r, t) \<Longrightarrow>
     \<exists>es. trace t = trace s @ es \<and> (\<forall>e \<in> set es. plain e)"
proof (induction rsps arbitrary: ctx s)
  case Nil
  then show ?case by (auto simp: run_iff)
next
  case (Cons rsp rsps)
  then show ?case
    by (fastforce simp: run_iff dest!: response_cb_plain dest: Cons.IH)
qed

text \<open>
  downloading over an existing file does not replace it: after a complete download
  of \<open>D\<close> the file holds \<open>D\<close> followed by whatever the old content had behind it, because
  the file is opened without truncation; it equals \<open>D\<close> exactly when the old file was not
  longer.
\<close>

theorem download_keeps_old_tail:
  assumes "run_state (deliver env rsps ctx) s = (ctx', t)" and "pieces_fit rsps"
    and "failed transfer_kind (trace t) = failed transfer_kind (trace s)" and "image old (trace s) = (old, 0)"
    and "D = concat (map payload rsps)"
  shows "fst (image old (trace t)) = D @ drop (length D) old \<and>
    (fst (image old (trace t)) = D \<longleftrightarrow> length old \<le> length D)"
proof -
  obtain es where es: "trace t = trace s @ es" "\<forall>e \<in> set es. plain e"
    using deliver_plain [OF assms(1)] by blast
  have "stored es = D"
    using deliver_stored [OF assms(1,2)] es(1) assms(3,5) by simp
  with image_plain [OF es(2), of 0 old] es(1) assms(4) show ?thesis
    by (simp add: image_append)
qed

theorem download_keeps_old_tail_witness:
  "fst (image [9, 9, 9, 9, 9] (trace (final (deliver (sim_env []) two_pieces ctx_init) io0))) = [1, 2, 3, 9, 9]"
proof -
  have "failed transfer_kind (trace (final (deliver (sim_env []) two_pieces ctx_init) io0)) = 0" by code_simp
  then show ?thesis
    using download_keeps_old_tail [OF run_result two_pieces_fit _ _ refl,
        of "sim_env []" ctx_init io0 "[9, 9, 9, 9, 9]"]
    unfolding two_pieces_payload by (simp add: io0_def image_def)
qed

section \<open>The whole command\<close>

lemma http_dl_get_req_frame:
  "run_state (http_dl_get_req env rsps hostname port path ctx) s = (r, t) \<Longrightarrow>
     same_resources (trace s) (trace t)"
  unfolding http_dl_get_req_def http_dl_socket_connect_def http_dl_socket_init_def
  by (auto simp: run_iff same_resources_def dest!: deliver_frame)

lemma dl_digest_frame:
  "run_state (dl_digest env fuel garbage p) s = (Some r, t) \<Longrightarrow>
     r = 0 \<and> same_resources (trace s) (trace t)"
  unfolding dl_digest_def print_sha256_sum_def
  by (auto simp: run_iff same_resources_def split: option.splits dest!: calculate_frame)

text \<open>
  a download request never returns the result of the name lookup to the library:
  each successful \<open>getaddrinfo\<close> leaves one result list allocated.
\<close>

theorem lookup_result_leaks:
  assumes "answers env (trace s) (Net (GetAddrInfo hostname port)) a"
    and "run_state (http_dl_get_req env rsps hostname port path ctx) s = (r, t)"
  shows "addrinfos (trace t) = addrinfos (trace s) + (if r_rc a = 0 then 1 else 0)"
  using assms unfolding http_dl_get_req_def http_dl_socket_connect_def http_dl_socket_init_def
  by (auto simp: run_iff answers_def dest!: deliver_frame)

theorem lookup_result_leaks_witness:
  "addrinfos (trace (final (http_dl_get_req (sim_env []) two_pieces ''h'' ''80'' ''/x'' ctx_init) io0)) = 1"
  using lookup_result_leaks [OF _ run_result, of "sim_env []" io0 "''h''" "''80''" "reply_rc 0"
      two_pieces "''/x''" ctx_init]
  by (simp add: answers_def sim_env_def io0_def) (simp add: reply_rc_def)

text \<open>
  C33: once its file is open, \<open>http_dl_file\<close> reports success whatever happens to the
  transfer: a failed lookup, a refused connection, a failed request, an aborted write
  and a failed digest all return 0, with every file, socket and hash operation released;
  the only error it can return is that of \<open>fs_open\<close>.
\<close>

theorem http_dl_file_result:
  assumes "answers env (trace s)
      (Fs (FsOpen (snprintf_path 128 fatfs_get_root_path save_path) [FS_O_CREATE, FS_O_WRITE])) f"
    and "run_state (http_dl_file env rsps fuel garbage hostname port path save_path) s = (Some r, t)"
  shows "r = (if r_rc f < 0 then r_rc f else 0) \<and> same_resources (trace s) (trace t)"
  using assms unfolding http_dl_file_def
  by (auto simp: run_iff answers_def Let_def same_resources_def
      dest!: http_dl_get_req_frame dl_digest_frame)

definition refused :: env where
  "refused = sim_over [(Net (Connect 3 (SockaddrResolved [])), reply_rc (- 1)),
     (Psa PsaHashFinish, (reply_rc 0)\<lparr>r_data := replicate 32 171\<rparr>)] (sim_env [])"

abbreviation refused_dl :: "(io, int option) state" where
  "refused_dl \<equiv> http_dl_file refused two_pieces 3 (replicate 65 CHR ''?'') ''h'' ''80'' ''/x'' ''x''"

theorem http_dl_file_result_witness:
  "result refused_dl io0 = Some 0 \<and> stored (trace (final refused_dl io0)) = [] \<and>
   same_resources [] (trace (final refused_dl io0))"
proof -
  have r: "result refused_dl io0 \<noteq> None" and st: "stored (trace (final refused_dl io0)) = []"
    by code_simp+
  have "answers refused (trace io0)
      (Fs (FsOpen (snprintf_path 128 fatfs_get_root_path ''x'') [FS_O_CREATE, FS_O_WRITE])) (reply_rc 0)"
    by (simp add: answers_def refused_def sim_over_def sim_env_def)
  from http_dl_file_result [OF this] r st show ?thesis
    by (auto simp: run_result reply_rc_def io0_def)
qed

end
