(* ===== verification/SdSpeed.thy ===== *)
theory SdSpeed
  imports Platform CString
begin

text \<open>
  \<open>src/sd_speed.c\<close>: the shell command that writes a test file to the SD card, reads it back
  and prints how long each took. Sizes are \<open>uint32_t\<close>, so the byte counts computed from
  the arguments wrap. The printed rates are floating-point quotients of the bytes and the
  milliseconds; the model keeps the bytes and the milliseconds.
\<close>

section \<open>Definitions\<close>

definition DEFAULT_TEST_FILE :: cstr where
  "DEFAULT_TEST_FILE = ''/SD:/speed_test.bin''"

definition sd_buf_size :: "u32 \<Rightarrow> u32" where
  "sd_buf_size buf_kb = buf_kb * 1024"

definition sd_total_bytes :: "u32 \<Rightarrow> u32" where
  "sd_total_bytes size_mb = size_mb * 1024 * 1024"

definition sd_chunk :: "u32 \<Rightarrow> u32 \<Rightarrow> u32 \<Rightarrow> u32" where
  "sd_chunk total_bytes buf_size n =
     (let chunk = total_bytes - n in if chunk > buf_size then buf_size else chunk)"

text \<open>The buffer after the fill loop, and the arguments of the command.\<close>

definition sd_pattern :: "u32 \<Rightarrow> byte list" where
  "sd_pattern buf_size = map of_nat [0..<unat buf_size]"

definition sd_args :: "cstr list \<Rightarrow> u32 \<times> u32 \<times> cstr" where
  "sd_args argv =
     (if length argv \<ge> 2 then strtoul (argv ! 1) 10 else 4,
      if length argv \<ge> 3 then strtoul (argv ! 2) 10 else 16,
      if length argv \<ge> 4 then argv ! 3 else DEFAULT_TEST_FILE)"

text \<open>
  The write loop: it leaves with \<open>Inl ret\<close> on a write error, after closing the file and
  freeing the buffer, and with \<open>Inr bytes_written\<close> when its condition fails.
\<close>

definition sd_write_body ::
    "env \<Rightarrow> u32 \<Rightarrow> u32 \<Rightarrow> u32 \<Rightarrow> ('a io_scheme, (int + u32) + u32) state" where
  "sd_write_body env total_bytes buf_size bytes_written =
     (if bytes_written < total_bytes then do {
        w \<leftarrow> ext env (Fs (FsWrite (take (unat (sd_chunk total_bytes buf_size bytes_written))
                 (sd_pattern buf_size))));
        (if r_rc w < 0 then do {
           _ \<leftarrow> ext env (Shell (ShellText ''Write error occurred: %d''));
           _ \<leftarrow> ext env (Fs FsClose);
           _ \<leftarrow> ext env (Kern KFree);
           State_Monad.return (Inl (Inl (r_rc w)))
         } else State_Monad.return (Inr (bytes_written + of_int (r_rc w))))
      } else State_Monad.return (Inl (Inr bytes_written)))"

definition sd_read_body ::
    "env \<Rightarrow> u32 \<Rightarrow> u32 \<Rightarrow> u32 \<Rightarrow> ('a io_scheme, (int + u32) + u32) state" where
  "sd_read_body env total_bytes buf_size bytes_read =
     (if bytes_read < total_bytes then do {
        r \<leftarrow> ext env (Fs (FsRead (sd_chunk total_bytes buf_size bytes_read)));
        (if r_rc r < 0 then do {
           _ \<leftarrow> ext env (Shell (ShellText ''Read error occurred: %d''));
           _ \<leftarrow> ext env (Fs FsClose);
           _ \<leftarrow> ext env (Kern KFree);
           State_Monad.return (Inl (Inl (r_rc r)))
         } else if r_rc r = 0 then State_Monad.return (Inl (Inr bytes_read))
         else State_Monad.return (Inr (bytes_read + of_int (r_rc r))))
      } else State_Monad.return (Inl (Inr bytes_read)))"

text \<open>A duration of 0 ms, or a clock that went backwards, counts as 1 ms.\<close>

definition duration_ms :: "int \<Rightarrow> int \<Rightarrow> int" where
  "duration_ms start_time end_time =
     (if end_time - start_time \<le> 0 then 1 else end_time - start_time)"

text \<open>
  The two halves of the test; \<open>Inl r\<close> is an error return, with the buffer freed,
  \<open>Inr n\<close> the bytes transferred, with the file closed. \<open>None\<close> is still running.
\<close>

definition sd_write_phase ::
    "env \<Rightarrow> nat \<Rightarrow> cstr \<Rightarrow> u32 \<Rightarrow> u32 \<Rightarrow> ('a io_scheme, (int + u32) option) state" where
  "sd_write_phase env fuel file_path total_bytes buf_size = do {
     f \<leftarrow> ext env (Fs (FsOpen file_path [FS_O_CREATE, FS_O_WRITE]));
     (if r_rc f < 0 then do {
        _ \<leftarrow> ext env (Shell (ShellText ''Failed to open file for writing: %d (Is SD card mounted?)''));
        _ \<leftarrow> ext env (Kern KFree);
        State_Monad.return (Some (Inl (r_rc f)))
      } else do {
        start \<leftarrow> ext env (Kern KUptimeGet);
        l \<leftarrow> loop_fuel fuel (sd_write_body env total_bytes buf_size) 0;
        (case l of
           None \<Rightarrow> State_Monad.return None
         | Some v \<Rightarrow> (case v of
             Inl ret \<Rightarrow> State_Monad.return (Some (Inl ret))
           | Inr bytes_written \<Rightarrow> do {
               y \<leftarrow> ext env (Fs FsSync);
               _ \<leftarrow> (if r_rc y < 0 then ext env (Shell (ShellText ''File sync failed: %d''))
                     else State_Monad.return y);
               stop \<leftarrow> ext env (Kern KUptimeGet);
               _ \<leftarrow> ext env (Fs FsClose);
               _ \<leftarrow> ext env (Shell (ShellRate bytes_written (duration_ms (r_rc start) (r_rc stop))));
               State_Monad.return (Some (Inr bytes_written))
             }))
      })
   }"

definition sd_read_phase ::
    "env \<Rightarrow> nat \<Rightarrow> cstr \<Rightarrow> u32 \<Rightarrow> u32 \<Rightarrow> ('a io_scheme, (int + u32) option) state" where
  "sd_read_phase env fuel file_path total_bytes buf_size = do {
     _ \<leftarrow> ext env (Shell (ShellText ''2/2 Reading data...''));
     f \<leftarrow> ext env (Fs (FsOpen file_path [FS_O_READ]));
     (if r_rc f < 0 then do {
        _ \<leftarrow> ext env (Shell (ShellText ''Failed to open file for reading: %d''));
        _ \<leftarrow> ext env (Kern KFree);
        State_Monad.return (Some (Inl (r_rc f)))
      } else do {
        start \<leftarrow> ext env (Kern KUptimeGet);
        l \<leftarrow> loop_fuel fuel (sd_read_body env total_bytes buf_size) 0;
        (case l of
           None \<Rightarrow> State_Monad.return None
         | Some v \<Rightarrow> (case v of
             Inl ret \<Rightarrow> State_Monad.return (Some (Inl ret))
           | Inr bytes_read \<Rightarrow> do {
               stop \<leftarrow> ext env (Kern KUptimeGet);
               _ \<leftarrow> ext env (Fs FsClose);
               _ \<leftarrow> ext env (Shell (ShellRate bytes_read (duration_ms (r_rc start) (r_rc stop))));
               State_Monad.return (Some (Inr bytes_read))
             }))
      })
   }"

definition sd_test ::
    "env \<Rightarrow> nat \<Rightarrow> cstr \<Rightarrow> u32 \<Rightarrow> u32 \<Rightarrow> ('a io_scheme, int option) state" where
  "sd_test env fuel file_path total_bytes buf_size = do {
     m \<leftarrow> ext env (Kern (KMalloc buf_size));
     (if r_rc m = 0 then do {
        _ \<leftarrow> ext env (Shell (ShellText ''Error: Insufficient heap memory! Check CONFIG_HEAP_MEM_POOL_SIZE''));
        State_Monad.return (Some (- ENOMEM))
      } else do {
        _ \<leftarrow> ext env (Fs (FsUnlink file_path));
        _ \<leftarrow> ext env (Shell (ShellText ''1/2 Writing data...''));
        w \<leftarrow> sd_write_phase env fuel file_path total_bytes buf_size;
        (case w of
           None \<Rightarrow> State_Monad.return None
         | Some v \<Rightarrow> (case v of
             Inl ret \<Rightarrow> State_Monad.return (Some ret)
           | Inr bytes_written \<Rightarrow> do {
               q \<leftarrow> sd_read_phase env fuel file_path total_bytes buf_size;
               (case q of
                  None \<Rightarrow> State_Monad.return None
                | Some v \<Rightarrow> (case v of
                    Inl ret \<Rightarrow> State_Monad.return (Some ret)
                  | Inr bytes_read \<Rightarrow> do {
                      _ \<leftarrow> ext env (Fs (FsUnlink file_path));
                      _ \<leftarrow> ext env (Kern KFree);
                      _ \<leftarrow> ext env (Shell (ShellText ''==== Speed Test Finished ====''));
                      State_Monad.return (Some 0)
                    }))
             }))
      })
   }"

definition cmd_sd_speed :: "env \<Rightarrow> nat \<Rightarrow> cstr list \<Rightarrow> ('a io_scheme, int option) state" where
  "cmd_sd_speed env fuel argv = (case sd_args argv of (size_mb, buf_kb, file_path) \<Rightarrow>
     if size_mb = 0 \<or> buf_kb = 0 then do {
       _ \<leftarrow> ext env (Shell (ShellText
              ''Invalid parameters! Usage: sd_speed [size_MB] [buf_KB] [file_path]''));
       State_Monad.return (Some (- EINVAL))
     } else do {
       _ \<leftarrow> ext env (Shell (ShellText ''==== SD Card R/W Speed Test Start ====''));
       _ \<leftarrow> ext env (Shell (ShellText ''File: %s, Size: %u MB, Buffer: %u KB''));
       sd_test env fuel file_path (sd_total_bytes size_mb) (sd_buf_size buf_kb)
     })"

section \<open>The loops\<close>

text \<open>
  A file system that always makes progress: a write of at least one byte takes at least
  one and at most all, or fails; a read likewise, or reports the end of the file.
\<close>

definition makes_progress :: "env \<Rightarrow> bool" where
  "makes_progress env \<longleftrightarrow>
     (\<forall>tr d. d \<noteq> [] \<longrightarrow> r_rc (env tr (Fs (FsWrite d))) < 0 \<or>
        0 < r_rc (env tr (Fs (FsWrite d))) \<and> r_rc (env tr (Fs (FsWrite d))) \<le> int (length d)) \<and>
     (\<forall>tr n. r_rc (env tr (Fs (FsRead n))) \<le> int (unat n))"

lemma sd_chunk_bounds:
  assumes "n < total_bytes" and "0 < buf_size"
  shows "0 < unat (sd_chunk total_bytes buf_size n)"
    and "unat n + unat (sd_chunk total_bytes buf_size n) \<le> unat total_bytes"
    and "unat (sd_chunk total_bytes buf_size n) \<le> unat buf_size"
proof -
  have le: "unat n < unat total_bytes" "0 < unat buf_size"
    using assms by (simp_all add: word_less_nat_alt)
  have sub: "unat (total_bytes - n) = unat total_bytes - unat n"
    using assms(1) by (intro unat_sub_le) simp
  show "0 < unat (sd_chunk total_bytes buf_size n)"
    and "unat n + unat (sd_chunk total_bytes buf_size n) \<le> unat total_bytes"
    and "unat (sd_chunk total_bytes buf_size n) \<le> unat buf_size"
    using le sub by (auto simp: sd_chunk_def Let_def word_less_nat_alt)
qed

text \<open>Advancing a counter by a reply within the chunk neither wraps nor overshoots.\<close>

lemma counter_step:
  fixes n total_bytes :: u32
  assumes "0 < k" and "k \<le> int c" and "unat n + c \<le> unat total_bytes"
  shows "unat n < unat (n + of_int k) \<and> unat (n + of_int k) \<le> unat total_bytes \<and>
    unat (n + of_int k) = unat n + nat k"
proof -
  obtain j where k: "k = int j" using assms(1) nonneg_int_cases by (metis less_imp_le)
  with assms have j: "0 < j" "j \<le> c" by simp_all
  then have b: "unat n + j < 2 ^ 32"
    using assms(3) unat_u32_lt [of total_bytes] by linarith
  have "unat (of_int k :: u32) = j"
    using b by (simp add: k unat_of_nat_small)
  then have "unat (n + of_int k) = unat n + j"
    using b by (simp add: unat_add_small)
  with j k assms(3) show ?thesis by simp
qed

lemma sd_write_step:
  assumes "makes_progress env" and "0 < buf_size" and "n \<le> total_bytes"
    and "run_state (sd_write_body env total_bytes buf_size n) s = (Inr m, t)"
  shows "unat n < unat m \<and> m \<le> total_bytes"
proof -
  let ?c = "sd_chunk total_bytes buf_size n"
  from assms(4) obtain w where w: "answers env (trace s) (Fs (FsWrite (take (unat ?c) (sd_pattern buf_size)))) w"
    and lt: "n < total_bytes" and pos: "0 \<le> r_rc w" and m: "m = n + of_int (r_rc w)"
    by (auto simp: sd_write_body_def run_iff not_less)
  have c: "0 < unat ?c" "unat n + unat ?c \<le> unat total_bytes" "unat ?c \<le> unat buf_size"
    using sd_chunk_bounds [OF lt assms(2)] by auto
  then have "length (take (unat ?c) (sd_pattern buf_size)) = unat ?c"
    by (simp add: sd_pattern_def)
  moreover from this c(1) have "take (unat ?c) (sd_pattern buf_size) \<noteq> []" by (metis less_irrefl list.size(3))
  ultimately have "0 < r_rc w \<and> r_rc w \<le> int (unat ?c)"
    using assms(1) w pos unfolding makes_progress_def answers_def by (metis linorder_not_less)
  with c counter_step [of "r_rc w" "unat ?c" n total_bytes] show ?thesis
    by (simp add: m word_le_nat_alt)
qed

lemma sd_read_step:
  assumes "makes_progress env" and "0 < buf_size" and "n \<le> total_bytes"
    and "run_state (sd_read_body env total_bytes buf_size n) s = (Inr m, t)"
  shows "unat n < unat m \<and> m \<le> total_bytes"
proof -
  let ?c = "sd_chunk total_bytes buf_size n"
  from assms(4) obtain r where "answers env (trace s) (Fs (FsRead ?c)) r"
    and lt: "n < total_bytes" and "0 < r_rc r" and m: "m = n + of_int (r_rc r)"
    by (auto simp: sd_read_body_def run_iff not_less le_less)
  with assms(1) have "0 < r_rc r \<and> r_rc r \<le> int (unat ?c)"
    by (simp add: makes_progress_def answers_def)
  with sd_chunk_bounds [OF lt assms(2)] counter_step [of "r_rc r" "unat ?c" n total_bytes]
  show ?thesis by (simp add: m word_le_nat_alt)
qed

interpretation writing: total_loop "sd_write_body env total_bytes buf_size"
    "\<lambda>n _. makes_progress env \<and> 0 < buf_size \<and> n \<le> total_bytes"
    "\<lambda>v _. \<forall>n. v = Inr n \<longrightarrow> n = total_bytes"
    "\<lambda>n _. unat total_bytes - unat n"
proof unfold_locales
  fix n m :: u32 and v :: "int + u32" and s t :: "'b io_scheme"
  assume inv: "makes_progress env \<and> 0 < buf_size \<and> n \<le> total_bytes"
  show "\<forall>n. v = Inr n \<longrightarrow> n = total_bytes"
    if "run_state (sd_write_body env total_bytes buf_size n) s = (Inl v, t)"
    using that inv by (auto simp: sd_write_body_def run_iff)
  assume r: "run_state (sd_write_body env total_bytes buf_size n) s = (Inr m, t)"
  show "makes_progress env \<and> 0 < buf_size \<and> m \<le> total_bytes"
    using sd_write_step [OF _ _ _ r] inv by blast
  show "unat total_bytes - unat m < unat total_bytes - unat n"
    using sd_write_step [OF _ _ _ r] inv by (auto simp: word_le_nat_alt)
qed

interpretation reading: total_loop "sd_read_body env total_bytes buf_size"
    "\<lambda>n _. makes_progress env \<and> 0 < buf_size \<and> n \<le> total_bytes"
    "\<lambda>v _. \<forall>n. v = Inr n \<longrightarrow> n \<le> total_bytes"
    "\<lambda>n _. unat total_bytes - unat n"
proof unfold_locales
  fix n m :: u32 and v :: "int + u32" and s t :: "'b io_scheme"
  assume inv: "makes_progress env \<and> 0 < buf_size \<and> n \<le> total_bytes"
  show "\<forall>n. v = Inr n \<longrightarrow> n \<le> total_bytes"
    if "run_state (sd_read_body env total_bytes buf_size n) s = (Inl v, t)"
    using that inv by (auto simp: sd_read_body_def run_iff)
  assume r: "run_state (sd_read_body env total_bytes buf_size n) s = (Inr m, t)"
  show "makes_progress env \<and> 0 < buf_size \<and> m \<le> total_bytes"
    using sd_read_step [OF _ _ _ r] inv by blast
  show "unat total_bytes - unat m < unat total_bytes - unat n"
    using sd_read_step [OF _ _ _ r] inv by (auto simp: word_le_nat_alt)
qed

section \<open>Resources\<close>

text \<open>Inside the loops a file is open and the buffer allocated.\<close>

definition sd_busy :: "event list \<Rightarrow> event list \<Rightarrow> bool" where
  "sd_busy tr0 tr \<longleftrightarrow>
     same_resources (tr0 @ [(Kern (KMalloc 1), reply_rc 1), (Fs (FsOpen [] []), reply_rc 0)]) tr"

definition sd_held :: "event list \<Rightarrow> event list \<Rightarrow> bool" where
  "sd_held tr0 tr \<longleftrightarrow> same_resources (tr0 @ [(Kern (KMalloc 1), reply_rc 1)]) tr"

lemmas sd_res = sd_busy_def sd_held_def same_resources_def reply_rc_def

interpretation writing_res: loop_contract "sd_write_body env total_bytes buf_size"
    "\<lambda>_ s. sd_busy tr0 (trace s)"
    "\<lambda>v s. if isl v then same_resources tr0 (trace s) else sd_busy tr0 (trace s)"
  by unfold_locales (auto simp: sd_write_body_def run_iff sd_res)

interpretation reading_res: loop_contract "sd_read_body env total_bytes buf_size"
    "\<lambda>_ s. sd_busy tr0 (trace s)"
    "\<lambda>v s. if isl v then same_resources tr0 (trace s) else sd_busy tr0 (trace s)"
  by unfold_locales (auto simp: sd_read_body_def run_iff sd_res)

text \<open>The lines with rates: bytes and milliseconds.\<close>

fun rate_line :: "event \<Rightarrow> (u32 \<times> int) list" where
  "rate_line (Shell (ShellRate n d), r) = [(n, d)]"
| "rate_line _ = []"

definition rates :: "event list \<Rightarrow> (u32 \<times> int) list" where
  "rates tr = concat (map rate_line tr)"

lemma rates_append [simp]: "rates (xs @ ys) = rates xs @ rates ys"
  by (simp add: rates_def)

lemma rates_Cons [simp]: "rates (e # es) = rate_line e @ rates es"
  by (simp add: rates_def)

lemma rates_Nil [simp]: "rates [] = []"
  by (simp add: rates_def)

interpretation writing_rates: loop_contract "sd_write_body env total_bytes buf_size"
    "\<lambda>_ s. rates (trace s) = rs" "\<lambda>_ s. rates (trace s) = rs"
  by unfold_locales (auto simp: sd_write_body_def run_iff)

interpretation reading_rates: loop_contract "sd_read_body env total_bytes buf_size"
    "\<lambda>_ s. rates (trace s) = rs" "\<lambda>_ s. rates (trace s) = rs"
  by unfold_locales (auto simp: sd_read_body_def run_iff)

section \<open>The two phases\<close>

lemma sd_loop_error:
  "run_state (loop_fuel k (sd_write_body env total_bytes buf_size) n) s = (Some (Inl r), t) \<Longrightarrow> r < 0"
  "run_state (loop_fuel k (sd_read_body env total_bytes buf_size) n) s = (Some (Inl r), t) \<Longrightarrow> r < 0"
  by (induction k arbitrary: n s) (auto simp: run_iff sd_write_body_def sd_read_body_def)

lemma sd_write_loop_res:
  assumes "run_state (loop_fuel fuel (sd_write_body env total_bytes buf_size) n) s = (Some v, t)"
    and "sd_busy tr0 (trace s)"
  shows "(if isl v then same_resources tr0 (trace t) \<and> projl v < 0 else sd_busy tr0 (trace t)) \<and>
    rates (trace t) = rates (trace s)"
  using writing_res.partial [OF assms(2,1)] writing_rates.partial [OF refl assms(1)] assms(1)
  by (cases v) (auto dest: sd_loop_error)

lemma sd_read_loop_res:
  assumes "run_state (loop_fuel fuel (sd_read_body env total_bytes buf_size) n) s = (Some v, t)"
    and "sd_busy tr0 (trace s)"
  shows "(if isl v then same_resources tr0 (trace t) \<and> projl v < 0 else sd_busy tr0 (trace t)) \<and>
    rates (trace t) = rates (trace s)"
  using reading_res.partial [OF assms(2,1)] reading_rates.partial [OF refl assms(1)] assms(1)
  by (cases v) (auto dest: sd_loop_error)

lemma duration_pos: "1 \<le> duration_ms a b"
  by (simp add: duration_ms_def)

text \<open>
  What a phase that returns leaves behind: with an error everything is released, without
  one the buffer is still allocated and one rate was printed.
\<close>

definition phase_done :: "event list \<Rightarrow> event list \<Rightarrow> (int + u32) \<Rightarrow> event list \<Rightarrow> bool" where
  "phase_done tr0 tr v tr' \<longleftrightarrow> (case v of
     Inl r \<Rightarrow> same_resources tr0 tr' \<and> r < 0 \<and> rates tr' = rates tr
   | Inr n \<Rightarrow> sd_held tr0 tr' \<and> (\<exists>d \<ge> 1. rates tr' = rates tr @ [(n, d)]))"

lemma sd_write_phase_done:
  assumes "run_state (sd_write_phase env fuel p total_bytes buf_size) s = (Some v, t)"
    and "sd_held tr0 (trace s)"
  shows "phase_done tr0 (trace s) v (trace t)"
proof -
  have loop: "(if isl w then same_resources tr0 (trace u') \<and> projl w < 0 else sd_busy tr0 (trace u')) \<and>
      rates (trace u') = rates (trace s)"
    if "run_state (loop_fuel fuel (sd_write_body env total_bytes buf_size) 0)
      (s\<lparr>trace := trace s @ [(Fs (FsOpen p [FS_O_CREATE, FS_O_WRITE]), f), (Kern KUptimeGet, r)]\<rparr>) = (Some w, u')"
      and "\<not> r_rc f < 0" for f r w u'
    using sd_write_loop_res [OF that(1), of tr0] that(2) assms(2) by (auto simp: sd_res)
  show ?thesis
    using assms unfolding sd_write_phase_def phase_done_def
    by (auto simp: run_iff sd_res duration_pos dest!: loop)
qed

lemma sd_read_phase_done:
  assumes "run_state (sd_read_phase env fuel p total_bytes buf_size) s = (Some v, t)"
    and "sd_held tr0 (trace s)"
  shows "phase_done tr0 (trace s) v (trace t)"
proof -
  have loop: "(if isl w then same_resources tr0 (trace u') \<and> projl w < 0 else sd_busy tr0 (trace u')) \<and>
      rates (trace u') = rates (trace s)"
    if "run_state (loop_fuel fuel (sd_read_body env total_bytes buf_size) 0)
      (s\<lparr>trace := trace s @ [(Shell (ShellText x), q), (Fs (FsOpen p [FS_O_READ]), f), (Kern KUptimeGet, r)]\<rparr>) = (Some w, u')"
      and "\<not> r_rc f < 0" for x q f r w u'
    using sd_read_loop_res [OF that(1), of tr0] that(2) assms(2) by (auto simp: sd_res)
  show ?thesis
    using assms unfolding sd_read_phase_def phase_done_def
    by (auto simp: run_iff sd_res duration_pos dest!: loop)
qed

lemma sd_write_phase_amount:
  assumes "run_state (sd_write_phase env fuel p total_bytes buf_size) s = (Some (Inr n), t)"
    and "makes_progress env" and "0 < buf_size"
  shows "n = total_bytes"
  using assms unfolding sd_write_phase_def
  by (auto simp: run_iff dest!: writing.partial [rotated])

lemma sd_phases_return:
  assumes "makes_progress env" and "0 < buf_size" and "unat total_bytes < fuel"
  shows "run_state (sd_write_phase env fuel p total_bytes buf_size) s \<noteq> (None, t)"
    and "run_state (sd_read_phase env fuel p total_bytes buf_size) s \<noteq> (None, t)"
proof -
  have w: "run_state (loop_fuel fuel (sd_write_body env total_bytes buf_size) 0) u \<noteq> (None, u')"
    and r: "run_state (loop_fuel fuel (sd_read_body env total_bytes buf_size) 0) u \<noteq> (None, u')" for u u'
    using writing.total [of env buf_size 0 total_bytes fuel u]
      reading.total [of env buf_size 0 total_bytes fuel u] assms by auto
  show "run_state (sd_write_phase env fuel p total_bytes buf_size) s \<noteq> (None, t)"
    using w unfolding sd_write_phase_def by (auto simp: run_iff)
  show "run_state (sd_read_phase env fuel p total_bytes buf_size) s \<noteq> (None, t)"
    using r unfolding sd_read_phase_def by (auto simp: run_iff)
qed

lemma sd_read_phase_amount:
  assumes "run_state (sd_read_phase env fuel p total_bytes buf_size) s = (Some (Inr n), t)"
    and "makes_progress env" and "0 < buf_size"
  shows "n \<le> total_bytes"
  using assms unfolding sd_read_phase_def
  by (auto simp: run_iff dest!: reading.partial [rotated])

lemma sd_test_done:
  assumes "run_state (sd_test env fuel p total_bytes buf_size) s = (Some r, t)"
  shows "same_resources (trace s) (trace t) \<and>
    (r = 0 \<and> makes_progress env \<and> 0 < buf_size \<longrightarrow>
      (\<exists>d1 n d2. rates (trace t) = rates (trace s) @ [(total_bytes, d1), (n, d2)] \<and>
        n \<le> total_bytes \<and> 1 \<le> d1 \<and> 1 \<le> d2))"
proof -
  have wphase: "phase_done (trace s) (trace s) v (trace u) \<and>
      (makes_progress env \<and> 0 < buf_size \<longrightarrow> isl v \<or> projr v = total_bytes)"
    if "run_state (sd_write_phase env fuel p total_bytes buf_size) (s\<lparr>trace := trace s @
        [(Kern (KMalloc buf_size), m), (Fs (FsUnlink p), x), (Shell (ShellText q), z)]\<rparr>) = (Some v, u)"
      and "r_rc m \<noteq> 0" for v u m x q z
    using sd_write_phase_done [OF that(1), of "trace s"] that
    by (cases v) (auto simp: sd_res phase_done_def dest: sd_write_phase_amount)
  have rphase: "phase_done (trace s) (trace u) v (trace w) \<and>
      (makes_progress env \<and> 0 < buf_size \<longrightarrow> isl v \<or> projr v \<le> total_bytes)"
    if "run_state (sd_read_phase env fuel p total_bytes buf_size) u = (Some v, w)"
      and "sd_held (trace s) (trace u)" for v u w
    using sd_read_phase_done [OF that] that(1)
    by (cases v) (auto dest: sd_read_phase_amount)
  from assms consider (nomem) "r \<noteq> 0" "same_resources (trace s) (trace t)"
    | (write_error) m x q z u where "r_rc m \<noteq> 0" "u = t"
      "run_state (sd_write_phase env fuel p total_bytes buf_size) (s\<lparr>trace := trace s @
        [(Kern (KMalloc buf_size), m), (Fs (FsUnlink p), x), (Shell (ShellText q), z)]\<rparr>) = (Some (Inl r), t)"
    | (written) m x q z n u v w where "r_rc m \<noteq> 0"
      "run_state (sd_write_phase env fuel p total_bytes buf_size) (s\<lparr>trace := trace s @
        [(Kern (KMalloc buf_size), m), (Fs (FsUnlink p), x), (Shell (ShellText q), z)]\<rparr>) = (Some (Inr n), u)"
      "run_state (sd_read_phase env fuel p total_bytes buf_size) u = (Some v, w)"
      "(v = Inl r \<and> t = w) \<or> (\<exists>k a b c. v = Inr k \<and> r = 0 \<and>
         trace t = trace w @ [(Fs (FsUnlink p), a), (Kern KFree, b), (Shell (ShellText ''==== Speed Test Finished ====''), c)])"
    unfolding sd_test_def by (auto simp: run_iff sd_res)
  then show ?thesis
  proof cases
    case nomem
    then show ?thesis by simp
  next
    case write_error
    with wphase show ?thesis by (fastforce simp: phase_done_def)
  next
    case written
    from wphase [OF written(2,1)] have w: "sd_held (trace s) (trace u)"
      "\<exists>d \<ge> 1. rates (trace u) = rates (trace s) @ [(n, d)]"
      "makes_progress env \<and> 0 < buf_size \<longrightarrow> n = total_bytes"
      by (auto simp: phase_done_def)
    from rphase [OF written(3) w(1)] written(4) w show ?thesis
      by (auto simp: phase_done_def sd_res)
  qed
qed

text \<open>The buffer sizes that wrap.\<close>

lemma sd_buf_size_wraps: "sd_buf_size kb = 0 \<longleftrightarrow> unat kb mod 4194304 = 0"
proof -
  have "sd_buf_size kb = 0 \<longleftrightarrow> unat (sd_buf_size kb) = 0" by (simp add: unat_eq_0)
  also have "unat (sd_buf_size kb) = unat kb * 1024 mod 2 ^ 32"
    by (simp add: sd_buf_size_def unat_word_ariths)
  finally show ?thesis by (simp add: mod_eq_0_iff_dvd)
qed

section \<open>Properties\<close>

text \<open>
  C34: The speed test returns on a file system that always makes progress (a write of at least
  one byte takes at least one, or fails), for all arguments but the buffer sizes that wrap to
  0 bytes, the multiples of 4194304 KB other than 0: \<open>2^32\<close> iterations are enough for both
  loops. (With a buffer of 0 bytes and something to write, each write takes nothing and the
  loop does not end.)
\<close>

theorem sd_speed_returns:
  assumes "makes_progress env" and "2 ^ 32 \<le> fuel"
    and "kb = fst (snd (sd_args argv))" and "kb = 0 \<or> unat kb mod 4194304 \<noteq> 0"
  shows "\<exists>r t. run_state (cmd_sd_speed env fuel argv) s = (Some r, t)"
proof -
  obtain x t where r: "run_state (cmd_sd_speed env fuel argv) s = (x, t)" by (metis surj_pair)
  have "unat n < fuel" for n :: u32 using unat_u32_lt [of n] assms(2) by linarith
  with r assms(1,3,4) have "x \<noteq> None"
    unfolding cmd_sd_speed_def sd_test_def
    by (auto simp: run_iff sd_phases_return word_gt_0 sd_buf_size_wraps)
  with r show ?thesis by auto
qed

text \<open>
  however the test ends (no memory, no file, an error in the middle of either loop,
  success) the buffer is freed and the file closed, once each.
\<close>

theorem sd_speed_no_leak:
  assumes "run_state (cmd_sd_speed env fuel argv) s = (Some r, t)"
  shows "same_resources (trace s) (trace t)"
  using assms unfolding cmd_sd_speed_def
  by (auto simp: run_iff sd_res dest!: sd_test_done)

text \<open>
  a test that reports success on a file system that makes progress wrote the whole
  announced amount and read back at most that: the two rates it prints are over
  \<open>sd_total_bytes\<close> and over no more than as much, each with a positive duration.
\<close>

theorem sd_speed_amounts:
  assumes "makes_progress env" and "run_state (cmd_sd_speed env fuel argv) s = (Some 0, t)"
    and "sd_buf_size (fst (snd (sd_args argv))) \<noteq> 0"
  shows "\<exists>d1 n d2. rates (trace t) = rates (trace s) @ [(sd_total_bytes (fst (sd_args argv)), d1), (n, d2)] \<and>
    n \<le> sd_total_bytes (fst (sd_args argv)) \<and> 1 \<le> d1 \<and> 1 \<le> d2"
  using assms unfolding cmd_sd_speed_def
  by (auto simp: run_iff word_gt_0 dest!: sd_test_done)

lemma sim_env_progress: "makes_progress (sim_env bs)"
  using sim_env_bounded [of bs] unfolding makes_progress_def reads_bounded_def
  by (simp add: sim_env_def reply_rc_def)

theorem sd_speed_returns_witness:
  "\<exists>r t. run_state (cmd_sd_speed (sim_env []) (2 ^ 32) [''sd_speed'']) io0 = (Some r, t)"
  by (rule sd_speed_returns [OF sim_env_progress _ refl]) (simp_all add: sd_args_def)

abbreviation no_file :: env where
  "no_file \<equiv> sim_over [(Fs (FsOpen DEFAULT_TEST_FILE [FS_O_CREATE, FS_O_WRITE]), reply_rc (- 5))] (sim_env [])"

theorem sd_speed_no_leak_witness:
  "result (cmd_sd_speed no_file 5 [''sd_speed'']) io0 = Some (- 5) \<and>
   same_resources [] (trace (final (cmd_sd_speed no_file 5 [''sd_speed'']) io0))"
proof -
  have "result (cmd_sd_speed no_file 5 [''sd_speed'']) io0 = Some (- 5)" by code_simp
  with sd_speed_no_leak [of no_file 5 "[''sd_speed'']" io0 "- 5"] show ?thesis
    by (simp add: run_result io0_def)
qed

abbreviation sd_4096 :: "(io, int option) state" where
  "sd_4096 \<equiv> cmd_sd_speed (sim_env []) 5 [''sd_speed'', ''4096'', ''1'']"

lemma sd_4096_args: "sd_args [''sd_speed'', ''4096'', ''1''] = (4096, 1, DEFAULT_TEST_FILE)"
  by (simp add: sd_args_def strtoul_def scan_number_def is_space_def skip_0x_def is_digit_def digit_val_def)

lemma sd_4096_total: "sd_total_bytes 4096 = 0"
  by code_simp

theorem sd_speed_amounts_witness:
  "\<exists>d1 n d2. rates (trace (final sd_4096 io0)) = [(0, d1), (n, d2)] \<and> n \<le> 0 \<and> 1 \<le> d1 \<and> 1 \<le> d2"
proof -
  have "result (sd_test (sim_env []) 5 DEFAULT_TEST_FILE 0 1024) u = Some 0" for u :: io
    by (simp add: sd_test_def sd_write_phase_def sd_read_phase_def sd_write_body_def
        sd_read_body_def result_def run_eval sim_env_def reply_rc_def eval_nat_numeral)
  then have "result sd_4096 io0 = Some 0"
    by (simp add: cmd_sd_speed_def sd_4096_args sd_4096_total sd_buf_size_def result_def run_eval)
  then show ?thesis
    using sd_speed_amounts [OF sim_env_progress, of "[]" 5 "[''sd_speed'', ''4096'', ''1'']" io0]
    by (simp add: run_result io0_def sd_4096_args sd_4096_total sd_buf_size_def)
qed

text \<open>
  the byte counts are the requested ones modulo \<open>2^32\<close>: a test of 4096 MB writes and
  reads nothing (and reports success), a buffer of 4194304 KB has no room for a byte.
\<close>

theorem sd_sizes_wrap:
  "unat (sd_total_bytes size_mb) = unat size_mb mod 4096 * 2 ^ 20 \<and>
   unat (sd_buf_size buf_kb) = unat buf_kb mod 2 ^ 22 * 2 ^ 10"
proof -
  have "unat (sd_total_bytes size_mb) = unat size_mb * 2 ^ 20 mod (2 ^ 12 * 2 ^ 20)"
    by (simp add: sd_total_bytes_def unat_word_ariths mod_mult_left_eq mult.assoc)
  moreover have "unat (sd_buf_size buf_kb) = unat buf_kb * 2 ^ 10 mod (2 ^ 22 * 2 ^ 10)"
    by (simp add: sd_buf_size_def unat_word_ariths)
  ultimately show ?thesis
    unfolding mult_mod_left [symmetric] by simp
qed

text \<open>
  on a full card the test never ends: a file system that takes 0 bytes of every write
  without an error keeps the write loop running for ever, for every announced amount
  above 0.
\<close>

theorem sd_speed_full_card:
  assumes "\<And>tr d. r_rc (env tr (Fs (FsWrite d))) = 0" and "0 < total_bytes"
    and "\<And>tr. r_rc (env tr (Kern (KMalloc buf_size))) \<noteq> 0"
    and "\<And>tr. 0 \<le> r_rc (env tr (Fs (FsOpen p [FS_O_CREATE, FS_O_WRITE])))"
  shows "result (sd_test env fuel p total_bytes buf_size) s = None"
proof -
  have "run_state (loop_fuel n (sd_write_body env total_bytes buf_size) 0) u \<noteq> (Some v, u')" for n u v u'
    using assms(1,2) by (induction n arbitrary: u) (simp_all add: sd_write_body_def run_eval)
  moreover have "\<not> r_rc (env tr (Fs (FsOpen p [FS_O_CREATE, FS_O_WRITE]))) < 0" for tr
    using assms(4) [of tr] by simp
  moreover obtain x t where x: "run_state (sd_test env fuel p total_bytes buf_size) s = (x, t)"
    by (metis surj_pair)
  ultimately have "x = None"
    using assms(3) unfolding sd_test_def sd_write_phase_def
    by (auto simp: run_iff answers_def)
  with x show ?thesis by (simp add: result_def)
qed

theorem sd_speed_full_card_witness:
  "result (sd_test (\<lambda>tr c. reply_rc (case c of Kern k \<Rightarrow> 1 | _ \<Rightarrow> 0)) 1000 ''/SD:/x'' 1 1) io0 = None"
  by (rule sd_speed_full_card) (simp_all add: reply_rc_def)

end
