(* ===== verification/Lfs.thy ===== *)
theory Lfs
  imports Fatfs
begin

text \<open>
  \<open>src/lfs.c\<close>: the littlefs sample kept beside the firmware (the build does not list it).
  It counts boots in one file and rewrites a test pattern in another. The abstract view
  is a map from file names to contents; on a storage that works, one run is one step of
  that map.
\<close>

section \<open>Definitions\<close>

definition MAX_PATH_LEN :: nat where
  "MAX_PATH_LEN = 255"

definition TEST_FILE_SIZE :: nat where
  "TEST_FILE_SIZE = 547"

record lfs_st = io +
  file_test_pattern :: "byte list"

text \<open>\<open>lsdir\<close> returns the last result of \<open>fs_readdir\<close>; the loop is the one of \<open>fatfs.c\<close> without its counter.\<close>

definition lfs_lsdir_body :: "env \<Rightarrow> unit \<Rightarrow> ('a io_scheme, int + unit) state" where
  "lfs_lsdir_body env _ = do {
     r \<leftarrow> ext env (Fs FsReaddir);
     (if r_rc r \<noteq> 0 \<or> r_name r = [] then State_Monad.return (Inl (r_rc r))
      else State_Monad.return (Inr ()))
   }"

definition lfs_lsdir :: "env \<Rightarrow> nat \<Rightarrow> cstr \<Rightarrow> ('a io_scheme, int option) state" where
  "lfs_lsdir env fuel path = do {
     d \<leftarrow> ext env (Fs (FsOpendir path));
     (if r_rc d \<noteq> 0 then State_Monad.return (Some (r_rc d))
      else do {
        l \<leftarrow> loop_fuel fuel (lfs_lsdir_body env) ();
        (case l of
           None \<Rightarrow> State_Monad.return None
         | Some res \<Rightarrow> do {
             _ \<leftarrow> ext env (Fs FsClosedir);
             State_Monad.return (Some res)
           })
      })
   }"

text \<open>What a read leaves in the buffer it was given.\<close>

definition read_into :: "byte list \<Rightarrow> reply \<Rightarrow> byte list" where
  "read_into buf r = (let d = take (nat (r_rc r)) (r_data r) in d @ drop (length d) buf)"

definition FS_O_RDWR :: "fs_flag list" where
  "FS_O_RDWR = [FS_O_READ, FS_O_WRITE]"

text \<open>The common end: a failed close wins over the result of the work.\<close>

definition close_out :: "env \<Rightarrow> int \<Rightarrow> ('a io_scheme, int) state" where
  "close_out env rc = do {
     ret \<leftarrow> ext env (Fs FsClose);
     (if r_rc ret < 0 then State_Monad.return (r_rc ret)
      else State_Monad.return (if rc < 0 then rc else 0))
   }"

definition littlefs_increase_infile_value :: "env \<Rightarrow> cstr \<Rightarrow> ('a io_scheme, int) state" where
  "littlefs_increase_infile_value env fname = do {
     f \<leftarrow> ext env (Fs (FsOpen fname (FS_O_CREATE # FS_O_RDWR)));
     (if r_rc f < 0 then State_Monad.return (r_rc f)
      else do {
        r \<leftarrow> ext env (Fs (FsRead 1));
        (if r_rc r < 0 then close_out env (r_rc r)
         else do {
           let boot_count = hd (read_into [0] r);
           k \<leftarrow> ext env (Fs (FsSeekSet 0));
           (if r_rc k < 0 then close_out env (r_rc k)
            else do {
              w \<leftarrow> ext env (Fs (FsWrite [boot_count + 1]));
              close_out env (r_rc w)
            })
         })
      })
   }"

text \<open>The pattern; \<open>size\<close> is the length of the list, at least 1.\<close>

definition incr_pattern :: "byte list \<Rightarrow> byte \<Rightarrow> byte list" where
  "incr_pattern p inc =
     (let fill = (if hd p mod 2 = 0 then 0xAA else 0x55);
          body = map (\<lambda>i. if i mod 8 = 0 then p ! i + inc else fill) [0..<length p - 1]
      in body @ [last p + inc])"

fun store_every_8 :: "byte list \<Rightarrow> nat \<Rightarrow> byte \<Rightarrow> nat \<Rightarrow> byte list" where
  "store_every_8 p i v 0 = p"
| "store_every_8 p i v (Suc n) =
     (if i < length p then store_every_8 (p[i := v]) (i + 8) (v + 1) n else p)"

definition init_pattern :: "nat \<Rightarrow> byte list" where
  "init_pattern n = (store_every_8 (replicate n 0x55) 0 1 n)[n - 1 := 0xAA]"

text \<open>The strings \<open>print_pattern\<close> prints, one per \<open>LOG_PRINTK\<close>.\<close>

definition hex_row :: "byte list \<Rightarrow> nat \<Rightarrow> cstr \<Rightarrow> cstr" where
  "hex_row p i sep = concat (map (\<lambda>k. hex2 (p ! (i + k)) @ '' '') [0..<7]) @ hex2 (p ! (i + 7)) @ sep"

definition newline :: cstr where
  "newline = [CHR 0x0A]"

definition pattern_lines :: "byte list \<Rightarrow> cstr list" where
  "pattern_lines p = (let j = length p div 16 in
     concat (map (\<lambda>k. [hex_row p (16 * k) '' '', hex_row p (16 * k + 8) newline] @
                      (if (k + 1) mod 32 = 0 then [newline] else [])) [0..<j]) @
     map (\<lambda>i. hex2 (p ! i) @ '' '') [16 * j..<length p] @ [newline])"

fun print_lines :: "env \<Rightarrow> cstr list \<Rightarrow> ('a io_scheme, unit) state" where
  "print_lines env [] = State_Monad.return ()"
| "print_lines env (l # ls) = do { _ \<leftarrow> ext env (Kern (Printk l)); print_lines env ls }"

definition print_pattern :: "env \<Rightarrow> byte list \<Rightarrow> ('a io_scheme, unit) state" where
  "print_pattern env p = print_lines env (pattern_lines p)"

text \<open>
  \<open>littlefs_binary_file_adj\<close>: what lies behind the pattern's update is \<open>adj_write\<close>.
\<close>

definition adj_write :: "env \<Rightarrow> ('a lfs_st_scheme, int) state" where
  "adj_write env = do {
     p \<leftarrow> get_field file_test_pattern;
     _ \<leftarrow> print_pattern env p;
     k \<leftarrow> ext env (Fs (FsSeekSet 0));
     (if r_rc k < 0 then close_out env (r_rc k)
      else do {
        w \<leftarrow> ext env (Fs (FsWrite p));
        close_out env (r_rc w)
      })
   }"

definition littlefs_binary_file_adj :: "env \<Rightarrow> cstr \<Rightarrow> ('a lfs_st_scheme, int) state" where
  "littlefs_binary_file_adj env fname = do {
     f \<leftarrow> ext env (Fs (FsOpen fname (FS_O_CREATE # FS_O_RDWR)));
     (if r_rc f < 0 then State_Monad.return (r_rc f)
      else do {
        d \<leftarrow> ext env (Fs (FsStat fname));
        (if r_rc d < 0 then close_out env (r_rc d)
         else if r_rc d = 0 \<and> \<not> r_isdir d \<and> r_size d = 0 then do {
           _ \<leftarrow> modify (file_test_pattern_update (\<lambda>_. init_pattern TEST_FILE_SIZE));
           adj_write env
         } else do {
           r \<leftarrow> ext env (Fs (FsRead (of_nat TEST_FILE_SIZE)));
           (if r_rc r < 0 then close_out env (r_rc r)
            else do {
              _ \<leftarrow> modify (file_test_pattern_update (\<lambda>p. incr_pattern (read_into p r) 1));
              adj_write env
            })
         })
      })
   }"

text \<open>The erase is compiled in with \<open>CONFIG_APP_WIPE_STORAGE\<close>.\<close>

definition littlefs_flash_erase :: "env \<Rightarrow> bool \<Rightarrow> byte \<Rightarrow> ('a io_scheme, int) state" where
  "littlefs_flash_erase env wipe id' = do {
     a \<leftarrow> ext env (Flash (FlashAreaOpen id'));
     (if r_rc a < 0 then State_Monad.return (r_rc a)
      else do {
        rc \<leftarrow> (if wipe then do { e \<leftarrow> ext env (Flash FlashAreaFlatten); State_Monad.return (r_rc e) }
              else State_Monad.return (r_rc a));
        _ \<leftarrow> ext env (Flash FlashAreaClose);
        State_Monad.return rc
      })
   }"

definition littlefs_mount :: "env \<Rightarrow> ('a io_scheme, int) state" where
  "littlefs_mount env = do {
     m \<leftarrow> ext env (Fs (FsMount disk_mount_pt));
     State_Monad.return (r_rc m)
   }"

definition fname1 :: cstr where
  "fname1 = snprintf_path MAX_PATH_LEN disk_mount_pt ''boot_count''"

definition fname2 :: cstr where
  "fname2 = snprintf_path MAX_PATH_LEN disk_mount_pt ''pattern.bin''"

definition lfs_out :: "env \<Rightarrow> ('a io_scheme, int option) state" where
  "lfs_out env = do {
     _ \<leftarrow> ext env (Fs FsUnmount);
     State_Monad.return (Some 0)
   }"

definition lfs_run :: "env \<Rightarrow> nat \<Rightarrow> ('a lfs_st_scheme, int option) state" where
  "lfs_run env fuel = do {
     rc \<leftarrow> littlefs_mount env;
     (if rc < 0 then State_Monad.return (Some 0)
      else do {
        v \<leftarrow> ext env (Fs (FsStatvfs disk_mount_pt));
        (if r_rc v < 0 then lfs_out env
         else do {
           l \<leftarrow> lfs_lsdir env fuel disk_mount_pt;
           (case l of
              None \<Rightarrow> State_Monad.return None
            | Some rc \<Rightarrow>
                if rc < 0 then lfs_out env
                else do {
                  rc \<leftarrow> littlefs_increase_infile_value env fname1;
                  (if rc \<noteq> 0 then lfs_out env
                   else do {
                     _ \<leftarrow> littlefs_binary_file_adj env fname2;
                     lfs_out env
                   })
                })
         })
      })
   }"

section \<open>The pattern in closed form\<close>

text \<open>Byte \<open>i\<close> of the pattern of \<open>n\<close> bytes after \<open>k\<close> increments.\<close>

definition pattern_byte :: "nat \<Rightarrow> nat \<Rightarrow> nat \<Rightarrow> byte" where
  "pattern_byte n k i =
     (if Suc i = n then 0xAA + of_nat k
      else if i mod 8 = 0 then of_nat (i div 8 + 1 + k)
      else if k = 0 \<or> odd k then 0x55 else 0xAA)"

definition pattern_at :: "nat \<Rightarrow> nat \<Rightarrow> byte list" where
  "pattern_at n k = map (pattern_byte n k) [0..<n]"

lemma length_pattern_at [simp]: "length (pattern_at n k) = n"
  by (simp add: pattern_at_def)

lemma store_every_8_run:
  assumes "i mod 8 = 0" and "length p \<le> i + 8 * m"
  shows "store_every_8 p i v m =
    map (\<lambda>j. if i \<le> j \<and> j mod 8 = 0 then v + of_nat ((j - i) div 8) else p ! j) [0..<length p]"
  using assms
proof (induction m arbitrary: p i v)
  case 0
  then show ?case by (auto intro: nth_equalityI)
next
  case (Suc m)
  show ?case
  proof (cases "i < length p")
    case False
    then show ?thesis by (auto intro: nth_equalityI)
  next
    case True
    have step: "(j - i) div 8 = Suc ((j - (i + 8)) div 8)" if "i + 8 \<le> j" for j
    proof -
      have "j - i = (j - (i + 8)) + 8" using that by simp
      then show ?thesis by (simp only: div_add_self2)
    qed
    have near: "j = i" if "i \<le> j" "8 dvd j" "\<not> i + 8 \<le> j" for j
      using that Suc.prems(1) by presburger
    have "store_every_8 p i v (Suc m) = store_every_8 (p[i := v]) (i + 8) (v + 1) m"
      using True by simp
    also have "\<dots> = map (\<lambda>j. if i + 8 \<le> j \<and> j mod 8 = 0 then v + 1 + of_nat ((j - (i + 8)) div 8)
        else p[i := v] ! j) [0..<length p]"
      using Suc.IH [of "i + 8" "p[i := v]" "v + 1"] Suc.prems by simp
    also have "\<dots> = map (\<lambda>j. if i \<le> j \<and> j mod 8 = 0 then v + of_nat ((j - i) div 8) else p ! j) [0..<length p]"
      using Suc.prems(1) step near
      by (intro map_cong refl) (auto simp: nth_list_update)
    finally show ?thesis .
  qed
qed

lemma init_pattern_at:
  assumes "0 < n"
  shows "init_pattern n = pattern_at n 0"
  using assms
  by (intro nth_equalityI)
    (auto simp: init_pattern_def store_every_8_run pattern_at_def pattern_byte_def nth_list_update)

lemma incr_pattern_at:
  assumes "1 < n"
  shows "incr_pattern (pattern_at n k) 1 = pattern_at n (Suc k)"
proof -
  have hd: "hd (pattern_at n k) = of_nat (Suc k)"
    using assms by (simp add: pattern_at_def hd_map hd_upt pattern_byte_def)
  have last: "last (pattern_at n k) = 0xAA + of_nat k"
    using assms by (simp add: pattern_at_def last_map pattern_byte_def)
  have "(of_nat (Suc k) :: byte) mod 2 = 0 \<longleftrightarrow> odd k"
    unfolding even_iff_mod_2_eq_zero [symmetric] even_of_nat by simp
  with hd last assms show ?thesis
    by (intro nth_equalityI)
      (auto simp: incr_pattern_def pattern_at_def pattern_byte_def nth_append less_Suc_eq)
qed

section \<open>The abstract storage\<close>

text \<open>
  The storage is a map from names to contents, with the name and the position of the
  open file.
\<close>

type_synonym store = "(cstr \<Rightarrow> byte list) \<times> cstr \<times> nat"

fun store_after :: "store \<Rightarrow> event \<Rightarrow> store" where
  "store_after (m, f, p) (Fs (FsOpen n fl), r) = (if r_rc r < 0 then (m, f, p) else (m, n, 0))"
| "store_after (m, f, p) (Fs (FsRead n), r) = (m, f, p + nat (r_rc r))"
| "store_after (m, f, p) (Fs (FsSeekSet k), r) = (if r_rc r < 0 then (m, f, p) else (m, f, nat k))"
| "store_after (m, f, p) (Fs (FsWrite d), r) =
     (let d' = take (nat (r_rc r)) d
      in (m(f := take p (m f) @ d' @ drop (p + length d') (m f)), f, p + length d'))"
| "store_after st _ = st"

definition store_of :: "(cstr \<Rightarrow> byte list) \<Rightarrow> event list \<Rightarrow> store" where
  "store_of m tr = foldl store_after (m, [], 0) tr"

lemma store_of_append [simp]: "store_of m (tr @ es) = foldl store_after (store_of m tr) es"
  by (simp add: store_of_def)

lemma store_after_neutral [simp]:
  "store_after st (Fs (FsOpendir d), r) = st" "store_after st (Fs FsReaddir, r) = st"
  "store_after st (Fs FsClosedir, r) = st" "store_after st (Fs (FsMount d), r) = st"
  "store_after st (Fs FsUnmount, r) = st" "store_after st (Fs (FsStatvfs d), r) = st"
  by (cases st; simp)+

text \<open>
  A storage that works and holds \<open>m\<close> at the start: every call succeeds, reads and stats
  answer from the store, writes take all their bytes.
\<close>

definition store_reply :: "store \<Rightarrow> fs_call \<Rightarrow> reply \<Rightarrow> bool" where
  "store_reply st c r = (case st of (m, f, p) \<Rightarrow> (case c of
     FsRead n \<Rightarrow> r_rc r = int (length (take (unat n) (drop p (m f)))) \<and>
       r_data r = take (unat n) (drop p (m f))
   | FsStat n \<Rightarrow> r_rc r = 0 \<and> \<not> r_isdir r \<and> r_size r = of_nat (length (m n))
   | FsWrite d \<Rightarrow> r_rc r = int (length d)
   | FsReaddir \<Rightarrow> True
   | _ \<Rightarrow> r_rc r = 0))"

definition working_store :: "(cstr \<Rightarrow> byte list) \<Rightarrow> env \<Rightarrow> bool" where
  "working_store m env \<longleftrightarrow> (\<forall>tr c. store_reply (store_of m tr) c (env tr (Fs c)))"

lemma working_store_reply:
  "working_store m env \<Longrightarrow> answers env tr (Fs c) r \<Longrightarrow> store_reply (store_of m tr) c r"
  by (auto simp: working_store_def answers_def)

text \<open>The abstract operations: what a run makes of the two contents.\<close>

definition next_count :: "byte list \<Rightarrow> byte list" where
  "next_count c = ((if c = [] then 0 else hd c) + 1) # tl c"

definition next_pattern :: "byte list \<Rightarrow> byte list" where
  "next_pattern c = (if c = [] then init_pattern TEST_FILE_SIZE else incr_pattern c 1)"

lemma print_lines_effect:
  "run_state (print_lines env ls) s = (u, t) \<Longrightarrow>
     store_of m (trace t) = store_of m (trace s) \<and> same_resources (trace s) (trace t) \<and>
     (\<exists>es. t = s\<lparr>trace := trace s @ es\<rparr>)"
proof (induction ls arbitrary: s)
  case Nil
  then show ?case by (auto simp: run_iff intro: exI [of _ "[]"])
next
  case (Cons l ls)
  then obtain r where "run_state (print_lines env ls) (s\<lparr>trace := trace s @ [(Kern (Printk l), r)]\<rparr>) = (u, t)"
    by (auto simp: run_iff)
  from Cons.IH [OF this] show ?case by (auto simp: same_resources_def)
qed

lemma increase_store:
  fixes s t :: "'a lfs_st_scheme"
  assumes "working_store m0 env"
    and "run_state (littlefs_increase_infile_value env fname) s = (rc, t)"
    and "fst (store_of m0 (trace s)) = m"
  shows "rc = 0 \<and> fst (store_of m0 (trace t)) = m(fname := next_count (m fname)) \<and>
    file_test_pattern t = file_test_pattern s"
proof -
  obtain f p where st: "store_of m0 (trace s) = (m, f, p)" using assms(3) by (metis prod.collapse)
  note reply = working_store_reply [OF assms(1)]
  show ?thesis
    using assms(2) unfolding littlefs_increase_infile_value_def close_out_def
    by (auto simp: run_iff st store_reply_def read_into_def next_count_def neq_Nil_conv Let_def
        dest!: reply; cases "m fname"; simp)
qed

text \<open>The adjusted file has the size of the pattern, so it is read and rewritten as a whole.\<close>

lemma length_incr_pattern: "0 < length p \<Longrightarrow> length (incr_pattern p inc) = length p"
  by (simp add: incr_pattern_def Let_def)

lemma adj_write_store:
  assumes "working_store m0 env" and "run_state (adj_write env) s = (rc, t)"
    and "store_of m0 (trace s) = (m, f, p)" and "length (file_test_pattern s) = TEST_FILE_SIZE"
    and "length (m f) \<le> TEST_FILE_SIZE"
  shows "rc = 0 \<and> fst (store_of m0 (trace t)) = m(f := file_test_pattern s) \<and>
    file_test_pattern t = file_test_pattern s"
proof -
  note reply = working_store_reply [OF assms(1)]
  from assms(2) show ?thesis
    unfolding adj_write_def close_out_def print_pattern_def
    by (auto simp: run_iff assms store_reply_def dest!: print_lines_effect [where m = m0] reply)
qed

lemma adj_store:
  fixes s t :: "'a lfs_st_scheme"
  assumes "working_store m0 env"
    and "run_state (littlefs_binary_file_adj env fname) s = (rc, t)"
    and "fst (store_of m0 (trace s)) = m" and "m fname = [] \<or> length (m fname) = TEST_FILE_SIZE"
    and "length (file_test_pattern s) = TEST_FILE_SIZE"
  shows "rc = 0 \<and> fst (store_of m0 (trace t)) = m(fname := next_pattern (m fname))"
proof -
  obtain f p where st: "store_of m0 (trace s) = (m, f, p)" using assms(3) by (metis prod.collapse)
  note reply = working_store_reply [OF assms(1)]
  have n: "unat (of_nat TEST_FILE_SIZE :: u32) = TEST_FILE_SIZE" "0 < TEST_FILE_SIZE"
    by (simp_all add: TEST_FILE_SIZE_def)
  then have n0: "(of_nat TEST_FILE_SIZE :: u32) \<noteq> 0" by (metis less_irrefl unsigned_0)
  have "\<exists>(u :: 'a lfs_st_scheme) q. run_state (adj_write env) u = (rc, t) \<and>
      store_of m0 (trace u) = (m, fname, q) \<and> file_test_pattern u = next_pattern (m fname)"
  proof (cases "m fname = []")
    case True
    then show ?thesis
      using assms(2) unfolding littlefs_binary_file_adj_def close_out_def
      by (auto simp: run_iff st store_reply_def next_pattern_def dest!: reply)
  next
    case False
    with assms(4) have len: "length (m fname) = TEST_FILE_SIZE" by simp
    show ?thesis
      using assms(2) unfolding littlefs_binary_file_adj_def close_out_def
      by (auto simp: run_iff st store_reply_def read_into_def next_pattern_def False len n n0 assms(5)
          dest!: reply)
  qed
  then obtain u :: "'a lfs_st_scheme" and q where u: "run_state (adj_write env) u = (rc, t)"
    "store_of m0 (trace u) = (m, fname, q)" "file_test_pattern u = next_pattern (m fname)"
    by blast
  have "length (next_pattern (m fname)) = TEST_FILE_SIZE"
    using assms(4) n(2) by (auto simp: next_pattern_def length_incr_pattern init_pattern_at)
  with adj_write_store [OF assms(1) u(1,2)] u(3) assms(4) n(2) show ?thesis by auto
qed

interpretation lfs_listing: total_loop "lfs_lsdir_body env"
    "\<lambda>_ s. dir_content env names \<and> dir_pos (trace s) \<le> length names" "\<lambda>v _. v = 0"
    "\<lambda>_ s. length names - dir_pos (trace s)"
  by unfold_locales (auto simp: lfs_lsdir_body_def run_iff dest: dir_content_read)

interpretation lfs_listing_store: loop_contract "lfs_lsdir_body env"
    "\<lambda>_ s. store_of m (trace s) = st \<and> file_test_pattern s = p"
    "\<lambda>_ s. store_of m (trace s) = st \<and> file_test_pattern s = p"
  by unfold_locales (auto simp: lfs_lsdir_body_def run_iff)

lemma lfs_lsdir_store:
  fixes s t :: "'a lfs_st_scheme"
  assumes "dir_content env names" and "length names < fuel" and "working_store m env"
    and "run_state (lfs_lsdir env fuel path) s = (x, t)"
  shows "x = Some 0 \<and> store_of m (trace t) = store_of m (trace s) \<and>
    file_test_pattern t = file_test_pattern s"
proof -
  obtain n f p where st: "store_of m (trace s) = (n, f, p)" by (metis prod.collapse)
  have loop: "\<exists>v. l = Some v \<and> v = 0 \<and> store_of m (trace w) = store_of m (trace u) \<and>
      file_test_pattern w = file_test_pattern u"
    if "run_state (loop_fuel fuel (lfs_lsdir_body env) ()) u = (l, w)" and "dir_pos (trace u) = 0"
    for u w :: "'a lfs_st_scheme" and l
  proof -
    note at = that
    have "length names - dir_pos (trace u) < fuel" using assms(2) by simp
    then obtain v where "l = Some v" "v = 0"
      using lfs_listing.total [of env names u fuel "()"] at assms(1) by auto
    with at(1) show ?thesis
      using lfs_listing_store.partial [of m u "store_of m (trace u)" "file_test_pattern u" fuel env "()" v w]
      by auto
  qed
  show ?thesis
    using assms(4) unfolding lfs_lsdir_def
    by (auto simp: run_iff st store_reply_def dest!: working_store_reply [OF assms(3)] loop)
qed

section \<open>Properties\<close>

text \<open>
  C35: one run of the sample on a storage that works is one step of the abstract store: it
  returns 0, the boot counter's first byte is incremented (modulo 256, starting from 0)
  and the pattern file becomes the next pattern; no other file changes.
\<close>

theorem lfs_run_refines:
  fixes s :: "'a lfs_st_scheme"
  assumes "working_store m0 env" and "dir_content env names" and "length names < fuel"
    and "fst (store_of m0 (trace s)) = m"
    and "m fname2 = [] \<or> length (m fname2) = TEST_FILE_SIZE"
    and "length (file_test_pattern s) = TEST_FILE_SIZE"
  shows "\<exists>t. run_state (lfs_run env fuel) s = (Some 0, t) \<and>
    fst (store_of m0 (trace t)) =
      m(fname1 := next_count (m fname1), fname2 := next_pattern (m fname2))"
proof -
  have ne: "fname2 \<noteq> fname1" by code_simp
  obtain x and t :: "'a lfs_st_scheme" where run: "run_state (lfs_run env fuel) s = (x, t)"
    by (metis surj_pair)
  note reply = working_store_reply [OF assms(1)]
  have counted: "v = 0 \<and> fst (store_of m0 (trace w)) = m(fname1 := next_count (m fname1)) \<and>
      file_test_pattern w = file_test_pattern s"
    if "run_state (littlefs_increase_infile_value env fname1) u = (v, w)"
      and "store_of m0 (trace u) = store_of m0 (trace s)" and "file_test_pattern u = file_test_pattern s"
    for u w :: "'a lfs_st_scheme" and v
    using increase_store [OF assms(1) that(1)] that(2,3) assms(4) by simp
  have adjusted: "fst (store_of m0 (trace z)) =
      m(fname1 := next_count (m fname1), fname2 := next_pattern (m fname2))"
    if "run_state (littlefs_binary_file_adj env fname2) w = (y, z)"
      and "fst (store_of m0 (trace w)) = m(fname1 := next_count (m fname1))"
      and "file_test_pattern w = file_test_pattern s"
    for w z :: "'a lfs_st_scheme" and y
    using adj_store [OF assms(1) that(1,2)] that(3) assms(5,6) ne by simp
  have "x = Some 0 \<and> fst (store_of m0 (trace t)) =
      m(fname1 := next_count (m fname1), fname2 := next_pattern (m fname2))"
    using run unfolding lfs_run_def littlefs_mount_def lfs_out_def
    by (auto simp: run_iff store_reply_def split: prod.splits
        dest!: reply lfs_lsdir_store [OF assms(2,3,1)] counted adjusted)
  with run show ?thesis by blast
qed

definition store_env :: "(cstr \<Rightarrow> byte list) \<Rightarrow> cstr list \<Rightarrow> env" where
  "store_env m0 names tr c = (case store_of m0 tr of (m, f, p) \<Rightarrow> (case c of
     Fs (FsRead n) \<Rightarrow> (let d = take (unat n) (drop p (m f)) in (reply_rc (int (length d)))\<lparr>r_data := d\<rparr>)
   | Fs (FsStat n) \<Rightarrow> (reply_rc 0)\<lparr>r_size := of_nat (length (m n))\<rparr>
   | Fs (FsWrite d) \<Rightarrow> reply_rc (int (length d))
   | Fs FsReaddir \<Rightarrow> (reply_rc 0)\<lparr>r_name := (if dir_pos tr < length names then names ! dir_pos tr else [])\<rparr>
   | _ \<Rightarrow> reply_rc 0))"

lemma store_env_works: "working_store m0 (store_env m0 names)"
  by (auto simp: working_store_def store_env_def store_reply_def reply_rc_def Let_def
      split: fs_call.splits prod.splits)

lemma store_env_lists: "[] \<notin> set names \<Longrightarrow> dir_content (store_env m0 names) names"
  by (auto simp: dir_content_def store_env_def reply_rc_def split: prod.splits)

definition lfs_init :: lfs_st where
  "lfs_init = \<lparr>trace = [], errno = 0, file_test_pattern = replicate TEST_FILE_SIZE 0\<rparr>"

theorem lfs_run_refines_witness:
  "\<exists>t. run_state (lfs_run (store_env ((\<lambda>_. [])(fname1 := [41])) [''boot_count'']) 2) lfs_init = (Some 0, t) \<and>
     fst (store_of ((\<lambda>_. [])(fname1 := [41])) (trace t)) =
       (\<lambda>_. [])(fname1 := [42], fname2 := init_pattern TEST_FILE_SIZE)"
proof -
  have "fname1 \<noteq> fname2" by code_simp
  then show ?thesis
    using lfs_run_refines [OF store_env_works store_env_lists, of "[''boot_count'']" 2 "(\<lambda>_. [])(fname1 := [41])" lfs_init]
    by (simp add: lfs_init_def store_of_def next_count_def next_pattern_def)
qed

text \<open>
  \<open>k + 1\<close> runs over an empty card leave the pattern in its closed form (every eighth
  byte counts up from its index, the bytes between alternate between 0x55 and 0xAA, the
  last one counts from 0xAA) and the boot counter at \<open>k + 1\<close> modulo 256.
\<close>

theorem lfs_after_runs:
  "(next_pattern ^^ Suc k) [] = pattern_at TEST_FILE_SIZE k \<and>
   (next_count ^^ Suc k) [] = [of_nat (Suc k)]"
proof (induction k)
  case 0
  then show ?case
    by (simp add: next_pattern_def next_count_def init_pattern_at TEST_FILE_SIZE_def)
next
  case (Suc k)
  have "pattern_at TEST_FILE_SIZE k \<noteq> []"
    using length_pattern_at [of TEST_FILE_SIZE k] by (auto simp: TEST_FILE_SIZE_def simp del: length_pattern_at)
  then have "next_pattern (pattern_at TEST_FILE_SIZE k) = pattern_at TEST_FILE_SIZE (Suc k)"
    by (simp add: next_pattern_def incr_pattern_at TEST_FILE_SIZE_def)
  with Suc.IH show ?case by (simp add: next_count_def add.commute)
qed

text \<open>The mounts of a trace are paired like the other resources.\<close>

fun mount_weight :: "event \<Rightarrow> int" where
  "mount_weight (Fs (FsMount p), r) = (if r_rc r < 0 then 0 else 1)"
| "mount_weight (Fs FsUnmount, r) = - 1"
| "mount_weight _ = 0"

definition mounts :: "event list \<Rightarrow> int" where
  "mounts tr = sum_list (map mount_weight tr)"

interpretation mounted: resource mount_weight mounts
  by unfold_locales (simp add: mounts_def)

definition lfs_same :: "event list \<Rightarrow> event list \<Rightarrow> bool" where
  "lfs_same tr tr' \<longleftrightarrow> same_resources tr tr' \<and> mounts tr' = mounts tr"

lemma lfs_same_trans: "lfs_same a b \<Longrightarrow> lfs_same b c \<Longrightarrow> lfs_same a c"
  by (simp add: lfs_same_def same_resources_def)

lemmas lfs_same_defs = lfs_same_def same_resources_def

interpretation lfs_listing_same: loop_contract "lfs_lsdir_body env"
    "\<lambda>_ s. lfs_same tr0 (trace s)" "\<lambda>_ s. lfs_same tr0 (trace s)"
  by unfold_locales (auto simp: lfs_lsdir_body_def run_iff lfs_same_defs)

lemma lfs_lsdir_same:
  assumes "run_state (lfs_lsdir env fuel path) s = (Some n, t)"
  shows "lfs_same (trace s) (trace t)"
proof -
  have loop: "lfs_same (trace u) (trace w)"
    if "run_state (loop_fuel fuel (lfs_lsdir_body env) c) u = (Some v, w)" for c u v w
    by (rule lfs_listing_same.partial [OF _ that]) (simp add: lfs_same_def)
  show ?thesis
    using assms unfolding lfs_lsdir_def
    by (auto simp: run_iff lfs_same_defs dest!: loop)
qed

lemma print_lines_same:
  "run_state (print_lines env ls) s = (u, t) \<Longrightarrow> lfs_same (trace s) (trace t)"
proof (induction ls arbitrary: s)
  case Nil
  then show ?case by (auto simp: run_iff lfs_same_def)
next
  case (Cons l ls)
  then obtain r where "run_state (print_lines env ls) (s\<lparr>trace := trace s @ [(Kern (Printk l), r)]\<rparr>) = (u, t)"
    by (auto simp: run_iff)
  from Cons.IH [OF this] show ?case by (auto simp: lfs_same_defs)
qed

lemma increase_same:
  "run_state (littlefs_increase_infile_value env fname) s = (rc, t) \<Longrightarrow> lfs_same (trace s) (trace t)"
  unfolding littlefs_increase_infile_value_def close_out_def
  by (auto simp: run_iff lfs_same_defs)

lemma adj_same:
  "run_state (littlefs_binary_file_adj env fname) s = (rc, t) \<Longrightarrow> lfs_same (trace s) (trace t)"
  unfolding littlefs_binary_file_adj_def adj_write_def print_pattern_def close_out_def
  by (auto simp: run_iff lfs_same_defs dest!: print_lines_same)

text \<open>
  whatever fails, a run that returns reports 0, has closed every file and directory it
  opened, and has unmounted the card exactly if it could mount it.
\<close>

theorem lfs_run_no_leak:
  assumes "run_state (lfs_run env fuel) s = (Some r, t)"
  shows "r = 0 \<and> same_resources (trace s) (trace t) \<and> mounts (trace t) = mounts (trace s)"
  using assms unfolding lfs_run_def littlefs_mount_def lfs_out_def
  by (auto simp: run_iff lfs_same_defs dest!: lfs_lsdir_same increase_same adj_same)

abbreviation no_pattern :: env where
  "no_pattern \<equiv> sim_over [(Fs (FsOpen fname2 (FS_O_CREATE # FS_O_RDWR)), reply_rc (- 5))] (dir_env [])"

theorem lfs_run_no_leak_witness:
  "same_resources [] (trace (final (lfs_run no_pattern 2) lfs_init)) \<and>
   mounts (trace (final (lfs_run no_pattern 2) lfs_init)) = 0"
proof -
  have "result (lfs_run no_pattern 2) lfs_init = Some 0" by code_simp
  then show ?thesis
    using lfs_run_no_leak [of no_pattern 2 lfs_init 0]
    by (simp add: run_result) (simp add: lfs_init_def)
qed

section \<open>The printed pattern\<close>

lemma hex2_visible: "filter (\<lambda>c. \<not> is_space c) (hex2 b) = hex2 b"
  using hex_digit_plain [OF unat_byte_div [of b]] hex_digit_plain [of "unat b mod 16"]
  by (simp add: hex2_def)

lemma spaces [simp]: "is_space (CHR '' '')" "is_space (CHR 0x0A)"
  by (simp_all add: is_space_def)

lemma hex2s_visible:
  "filter (\<lambda>c. \<not> is_space c) (concat (map (\<lambda>i. hex2 (f i) @ '' '') is)) = concat (map (\<lambda>i. hex2 (f i)) is)"
  by (induction "is") (simp_all add: hex2_visible)

lemma hex_row_visible:
  assumes "filter (\<lambda>c. \<not> is_space c) sep = []"
  shows "filter (\<lambda>c. \<not> is_space c) (hex_row p i sep) = concat (map (\<lambda>j. hex2 (p ! j)) [i..<i + 8])"
proof -
  have up: "[i..<i + 8] = map ((+) i) [0..<7] @ [i + 7]"
    by (simp add: upt_conv_Cons)
  show ?thesis
    unfolding up hex_row_def using assms hex2s_visible [of "\<lambda>k. p ! (i + k)" "[0..<7]"]
    by (simp add: hex2_visible comp_def)
qed

lemma hex_rows_visible:
  "filter (\<lambda>c. \<not> is_space c) (concat (concat (map (\<lambda>k. [hex_row p (16 * k) '' '', hex_row p (16 * k + 8) newline] @
      (if (k + 1) mod 32 = 0 then [newline] else [])) [0..<j]))) =
    concat (map (\<lambda>i. hex2 (p ! i)) [0..<16 * j])"
proof (induction j)
  case 0
  then show ?case by simp
next
  case (Suc j)
  have sep: "filter (\<lambda>c. \<not> is_space c) '' '' = []" "filter (\<lambda>c. \<not> is_space c) newline = []"
    by (simp_all add: newline_def)
  have "16 * Suc j = 16 * j + 8 + 8" by simp
  then have "[0..<16 * Suc j] = [0..<16 * j] @ [16 * j..<16 * j + 8] @ [16 * j + 8..<16 * j + 8 + 8]"
    by (metis add.left_neutral append.assoc upt_add_eq_append zero_le)
  with Suc.IH show ?case
    using hex_row_visible [OF sep(1), of p "16 * j"] hex_row_visible [OF sep(2), of p "16 * j + 8"] sep(2)
    by simp
qed

text \<open>
  the printed table is lossless: without the white space, the lines of \<open>print_pattern\<close>
  are the two-digit codes of all the bytes, each once and in order, for every size.
\<close>

theorem pattern_lines_lossless:
  "filter (\<lambda>c. \<not> is_space c) (concat (pattern_lines p)) = concat (map hex2 p)"
proof -
  have split: "[0..<16 * (length p div 16)] @ [16 * (length p div 16)..<length p] = [0..<length p]"
    using upt_add_eq_append [of 0 "16 * (length p div 16)" "length p mod 16"] by simp
  have "filter (\<lambda>c. \<not> is_space c) (concat (pattern_lines p)) =
      concat (map (\<lambda>i. hex2 (p ! i)) ([0..<16 * (length p div 16)] @ [16 * (length p div 16)..<length p]))"
    unfolding pattern_lines_def Let_def concat_append filter_append hex_rows_visible hex2s_visible map_append
    by (simp add: newline_def)
  moreover have "map (\<lambda>i. hex2 (p ! i)) [0..<length p] = map hex2 p"
    by (rule nth_equalityI) simp_all
  ultimately show ?thesis unfolding split by simp
qed

end
