(* ===== verification/WsCli.thy ===== *)
theory WsCli
  imports Platform
begin

text \<open>
  \<open>src/wscli.c\<close>: the websocket client. Its state is the two descriptors \<open>g_sock4\<close> (TCP) and
  \<open>g_websock4\<close> (the websocket on top of it), -1 when closed. The peer address
  (\<open>SERVER_ADDR4\<close>) and \<open>CONFIG_NET_IPV4\<close> are configuration, hence parameters.
\<close>

section \<open>Definitions\<close>

record wscli_st = io +
  g_sock4 :: int
  g_websock4 :: int

definition SERVER_PORT :: int where
  "SERVER_PORT = 9001"

definition WS_TIMEOUT :: int where
  "WS_TIMEOUT = 3 * 1000"

definition ws_setup_socket ::
    "env \<Rightarrow> sa_family \<Rightarrow> cstr \<Rightarrow> int \<Rightarrow> ('a io_scheme, int \<times> int \<times> sockaddr) state" where
  "ws_setup_socket env family server port = do {
     let addr = (case family of
         AF_INET \<Rightarrow> SockaddrIn (word_of_int port) server
       | AF_INET6 \<Rightarrow> SockaddrIn6 (word_of_int port) server);
     s \<leftarrow> ext_posix env (Net (SocketTcp family));
     State_Monad.return (0, r_rc s, addr)
   }"

text \<open>\<open>connect_socket\<close> returns its result and the socket it stores through its pointer.\<close>

definition ws_connect_socket ::
    "env \<Rightarrow> sa_family \<Rightarrow> cstr \<Rightarrow> int \<Rightarrow> ('a io_scheme, int \<times> int) state" where
  "ws_connect_socket env family server port = do {
     (ret, sock, addr) \<leftarrow> ws_setup_socket env family server port;
     (if ret < 0 \<or> sock < 0 then State_Monad.return (- 1, sock)
      else do {
        c \<leftarrow> ext_posix env (Net (Connect sock addr));
        State_Monad.return (if r_rc c < 0 then - 1 else r_rc c, sock)
      })
   }"

definition wscli_send :: "env \<Rightarrow> int \<Rightarrow> byte list \<Rightarrow> ('a io_scheme, int) state" where
  "wscli_send env sock buf = do {
     r \<leftarrow> ext_posix env (Net (Send sock buf));
     State_Monad.return (r_rc r)
   }"

definition wscli_ping :: "env \<Rightarrow> int \<Rightarrow> ('a io_scheme, unit) state" where
  "wscli_ping env ws_sock =
     (if ws_sock < 0 then State_Monad.return ()
      else do { _ \<leftarrow> ext env (Net (WebsocketPing ws_sock)); State_Monad.return () })"

text \<open>
  \<open>wscli_recv\<close>: the loop leaves with the new \<open>read_pos\<close> and what was received. The
  result is -1 or the number of bytes, with the received bytes beside it.
\<close>

definition recv_body ::
    "env \<Rightarrow> int \<Rightarrow> u32 \<Rightarrow> unit \<Rightarrow> ('a io_scheme, (int \<times> byte list) + unit) state" where
  "recv_body env sock buf_len _ = do {
     r \<leftarrow> ext_posix env (Net (Recv sock buf_len));
     (if r_rc r \<le> 0 then do {
        e \<leftarrow> get_field errno;
        (if e = EAGAIN \<or> e = ETIMEDOUT then do {
           _ \<leftarrow> ext env (Kern (KSleepMs 50));
           State_Monad.return (Inr ())
         } else State_Monad.return (Inl (- 1, [])))
      } else State_Monad.return (Inl (r_rc r, take (nat (r_rc r)) (r_data r))))
   }"

definition wscli_recv ::
    "env \<Rightarrow> nat \<Rightarrow> int \<Rightarrow> u32 \<Rightarrow> ('a io_scheme, (int \<times> byte list) option) state" where
  "wscli_recv env fuel sock buf_len = loop_fuel fuel (recv_body env sock buf_len) ()"

text \<open>
  \<open>wscli_init\<close>: the host string is \<open>"server:9001"\<close>, the URL \<open>/\<close>.
\<close>

definition ws_host :: "cstr \<Rightarrow> cstr" where
  "ws_host server = take 127 (server @ '':9001'')"

definition wscli_init :: "env \<Rightarrow> bool \<Rightarrow> cstr \<Rightarrow> ('a wscli_st_scheme, int) state" where
  "wscli_init env ipv4 server =
     (if \<not> ipv4 then State_Monad.return (- 1)
      else do {
        (ret, sock) \<leftarrow> ws_connect_socket env AF_INET server SERVER_PORT;
        _ \<leftarrow> modify (g_sock4_update (\<lambda>_. sock));
        (if ret \<noteq> 0 then State_Monad.return (- 1)
         else if sock < 0 then State_Monad.return (- 1)
         else do {
           w \<leftarrow> ext env (Net (WebsocketConnect sock (ws_host server) ''/'' WS_TIMEOUT));
           _ \<leftarrow> modify (g_websock4_update (\<lambda>_. r_rc w));
           (if r_rc w < 0 then do {
              _ \<leftarrow> ext_posix env (Net (SocketClose sock));
              _ \<leftarrow> modify (g_sock4_update (\<lambda>_. - 1));
              State_Monad.return (- 1)
            } else State_Monad.return 0)
         })
      })"

text \<open>Closing one of the two descriptors if it is open.\<close>

definition wscli_fini :: "env \<Rightarrow> ('a wscli_st_scheme, int) state" where
  "wscli_fini env = do {
     w \<leftarrow> get_field g_websock4;
     _ \<leftarrow> (if w \<ge> 0 then do {
            _ \<leftarrow> ext_posix env (Net (SocketClose w));
            modify (g_websock4_update (\<lambda>_. - 1))
          } else State_Monad.return ());
     s \<leftarrow> get_field g_sock4;
     _ \<leftarrow> (if s \<ge> 0 then do {
            _ \<leftarrow> ext_posix env (Net (SocketClose s));
            modify (g_sock4_update (\<lambda>_. - 1))
          } else State_Monad.return ());
     State_Monad.return 0
   }"

definition wscli_getsock :: "('a wscli_st_scheme, int) state" where
  "wscli_getsock = get_field g_websock4"

section \<open>Sockets\<close>

text \<open>
  \<open>ws_owned n s\<close>: beside \<open>n\<close> sockets of others, exactly the open descriptors of the client
  are open.
\<close>

definition ws_open :: "'a wscli_st_scheme \<Rightarrow> int" where
  "ws_open s = (if g_sock4 s \<ge> 0 then 1 else 0) + (if g_websock4 s \<ge> 0 then 1 else 0)"

definition ws_owned :: "int \<Rightarrow> 'a wscli_st_scheme \<Rightarrow> bool" where
  "ws_owned n s \<longleftrightarrow> open_sockets (trace s) = n + ws_open s"

lemma ws_connect_socket_trace:
  fixes s t :: "'a wscli_st_scheme"
  assumes "run_state (ws_connect_socket env family server port) s = ((ret, sock), t)"
  shows "g_sock4 t = g_sock4 s \<and> g_websock4 t = g_websock4 s \<and>
     open_sockets (trace t) = open_sockets (trace s) + (if sock < 0 then 0 else 1) \<and>
     (ret = 0 \<longrightarrow> 0 \<le> sock)"
  using assms unfolding ws_connect_socket_def ws_setup_socket_def
  by (auto simp: run_iff)

section \<open>Properties\<close>

text \<open>
  C36: \<open>wscli_init\<close> returns 0 exactly when the websocket is open, and the open sockets are
  then those its variables name, plus the TCP socket of an earlier attempt: a refused
  connection leaves \<open>g_sock4\<close> open, and the next attempt overwrites it, so repeating
  \<open>wscli_init\<close> without \<open>wscli_fini\<close> loses one socket per attempt.
\<close>

theorem ws_init_owned:
  assumes "ws_owned n s" and "g_websock4 s < 0"
    and "run_state (wscli_init env True server) s = (r, t)"
  shows "ws_owned (n + (if g_sock4 s \<ge> 0 then 1 else 0)) t \<and> (r = 0 \<longleftrightarrow> 0 \<le> g_websock4 t)"
  using assms unfolding wscli_init_def ws_owned_def ws_open_def
  by (auto simp: run_iff dest!: ws_connect_socket_trace)

text \<open>
  \<open>wscli_fini\<close> closes exactly the sockets the client owns and marks both descriptors
  closed, from every state.
\<close>

theorem ws_fini_closes:
  assumes "ws_owned n s" and "run_state (wscli_fini env) s = (r, t)"
  shows "r = 0 \<and> open_sockets (trace t) = n \<and> g_sock4 t < 0 \<and> g_websock4 t < 0"
  using assms unfolding wscli_fini_def ws_owned_def ws_open_def
  by (auto simp: run_iff)

definition wscli0 :: wscli_st where
  "wscli0 = \<lparr>trace = [], errno = 0, g_sock4 = - 1, g_websock4 = - 1\<rparr>"

definition ws_refused :: env where
  "ws_refused = sim_over [(Net (Connect 3 (SockaddrIn 9001 ''10.0.0.1'')), reply_rc (- 1))] (sim_env [])"

definition twice :: "(wscli_st, int) state" where
  "twice = do { _ \<leftarrow> wscli_init ws_refused True ''10.0.0.1''; wscli_init ws_refused True ''10.0.0.1'' }"

abbreviation once :: wscli_st where
  "once \<equiv> final (wscli_init ws_refused True ''10.0.0.1'') wscli0"

theorem ws_init_owned_witness:
  "g_websock4 once < 0 \<and> ws_owned 1 (final (wscli_init ws_refused True ''10.0.0.1'') once)"
proof -
  have "g_websock4 once = - 1" "g_sock4 once = 3" by code_simp+
  moreover have "ws_owned 0 once"
    using ws_init_owned [OF _ _ run_result, of 0 wscli0 ws_refused "''10.0.0.1''"]
    by (simp add: wscli0_def ws_owned_def ws_open_def)
  ultimately show ?thesis
    using ws_init_owned [OF _ _ run_result, of 0 once ws_refused "''10.0.0.1''"] by simp
qed

theorem ws_fini_closes_witness:
  "open_sockets (trace (final (wscli_fini ws_refused) once)) = 0 \<and> g_sock4 once = 3"
proof -
  have "ws_owned 0 once" and "g_sock4 once = 3" by code_simp+
  then show ?thesis using ws_fini_closes [OF _ run_result] by blast
qed

section \<open>Receiving\<close>

text \<open>
  The platform's answers to \<open>recv\<close>, in order: the \<open>i\<close>-th call gets the \<open>i\<close>-th reply.
\<close>

fun is_recv :: "event \<Rightarrow> bool" where
  "is_recv (Net (Recv s n), r) = True"
| "is_recv _ = False"

definition recvs :: "event list \<Rightarrow> nat" where
  "recvs tr = length (filter is_recv tr)"

lemma recvs_append [simp]: "recvs (xs @ ys) = recvs xs + recvs ys"
  by (simp add: recvs_def)

lemma recvs_Cons [simp]: "recvs (e # es) = (if is_recv e then Suc (recvs es) else recvs es)"
  by (simp add: recvs_def)

lemma recvs_Nil [simp]: "recvs [] = 0"
  by (simp add: recvs_def)

definition recv_script :: "(nat \<Rightarrow> reply) \<Rightarrow> env \<Rightarrow> bool" where
  "recv_script rs env \<longleftrightarrow> (\<forall>tr s n. env tr (Net (Recv s n)) = rs (recvs tr))"

text \<open>A call that timed out or would block.\<close>

definition retries :: "reply \<Rightarrow> bool" where
  "retries r \<longleftrightarrow> r_rc r < 0 \<and> (r_errno r = EAGAIN \<or> r_errno r = ETIMEDOUT)"

definition hard_error :: "reply \<Rightarrow> bool" where
  "hard_error r \<longleftrightarrow> r_rc r < 0 \<and> r_errno r \<noteq> EAGAIN \<and> r_errno r \<noteq> ETIMEDOUT"

text \<open>The error numbers on which the loop goes on, and what it does with them.\<close>

definition try_again :: "int \<Rightarrow> bool" where
  "try_again e \<longleftrightarrow> e = EAGAIN \<or> e = ETIMEDOUT"

lemma recv_step:
  assumes "recv_script rs env"
    and "retries (rs (recvs (trace s))) \<or> r_rc (rs (recvs (trace s))) = 0 \<and> try_again (errno s)"
  shows "\<exists>t. run_state (recv_body env sock n ()) s = (Inr (), t) \<and>
    recvs (trace t) = Suc (recvs (trace s)) \<and> try_again (errno t)"
proof -
  have "env tr (Net (Recv sock n)) = rs (recvs tr)" for tr
    using assms(1) by (simp add: recv_script_def)
  with assms(2) show ?thesis
    by (auto simp: recv_body_def run_eval retries_def try_again_def)
qed

lemma recv_after_retries:
  assumes "recv_script rs env" and "\<forall>i < k. retries (rs (recvs (trace s) + i))"
  shows "\<exists>u. (\<forall>f. run_state (wscli_recv env (k + f) sock n) s = run_state (wscli_recv env f sock n) u) \<and>
    recvs (trace u) = recvs (trace s) + k \<and> (k = 0 \<longrightarrow> errno u = errno s)"
  using assms(2)
proof (induction k arbitrary: s)
  case 0
  show ?case by (intro exI [of _ s]) simp
next
  case (Suc k)
  then have "retries (rs (recvs (trace s)))" by (metis add.right_neutral zero_less_Suc)
  with recv_step [OF assms(1), of s sock n] obtain t where
    t: "run_state (recv_body env sock n ()) s = (Inr (), t)" "recvs (trace t) = Suc (recvs (trace s))" by blast
  have "\<forall>i < k. retries (rs (recvs (trace t) + i))"
    using Suc.prems t(2) by (metis Suc_less_eq add_Suc add_Suc_right)
  from Suc.IH [OF this] obtain u where
    "\<forall>f. run_state (wscli_recv env (k + f) sock n) t = run_state (wscli_recv env f sock n) u"
    "recvs (trace u) = recvs (trace t) + k" by blast
  with t show ?case by (intro exI [of _ u]) (simp add: wscli_recv_def run_eval)
qed

text \<open>A connection that is closed after a timeout is taken for one more timeout, over and over.\<close>

lemma recv_closed_hangs:
  assumes "recv_script rs env" and "\<forall>i < k. retries (rs (recvs (trace s) + i))"
    and "\<forall>i. r_rc (rs (recvs (trace s) + k + i)) = 0" and "0 < k \<or> try_again (errno s)"
  shows "result (wscli_recv env fuel sock n) s = None"
  using assms(2-4)
proof (induction fuel arbitrary: s k)
  case 0
  then show ?case by (simp add: wscli_recv_def result_def)
next
  case (Suc f)
  have "retries (rs (recvs (trace s))) \<or> r_rc (rs (recvs (trace s))) = 0 \<and> try_again (errno s)"
    using Suc.prems by (cases k) (metis add.right_neutral, metis add.right_neutral zero_less_Suc)
  from recv_step [OF assms(1) this, of sock n] obtain t where
    t: "run_state (recv_body env sock n ()) s = (Inr (), t)"
      "recvs (trace t) = Suc (recvs (trace s))" "try_again (errno t)" by blast
  have "\<forall>i < k - 1. retries (rs (recvs (trace t) + i))"
    using Suc.prems(1) t(2) by (metis add_Suc add_Suc_right less_diff_conv Suc_eq_plus1)
  moreover have "\<forall>i. r_rc (rs (recvs (trace t) + (k - 1) + i)) = 0"
  proof (cases k)
    case 0
    then show ?thesis using Suc.prems(2) t(2) by (metis add.right_neutral add_Suc add_Suc_right diff_0_eq_0)
  next
    case (Suc j)
    then show ?thesis using Suc.prems(2) t(2) by (metis add_Suc add_Suc_right diff_Suc_1)
  qed
  ultimately have "result (wscli_recv env f sock n) t = None"
    using Suc.IH t(3) by blast
  with t(1) show ?case by (simp add: wscli_recv_def result_def run_eval)
qed

text \<open>
  C37: \<open>wscli_recv\<close> waits out the timeouts, and what it does with the first other answer, for
  every list of answers. If \<open>k\<close> calls of \<open>recv\<close> time out and the next one brings bytes, it
  returns them, after exactly \<open>k + 1\<close> calls. If that call fails with another error, or the
  connection is closed with no timeout before, it returns -1 after \<open>k + 1\<close> calls. If the
  connection is closed after a timeout (\<open>recv\<close> then returns 0 for ever and leaves \<open>errno\<close>
  alone), it never returns.
\<close>

theorem recv_waits:
  assumes "recv_script rs env" and "\<forall>i < k. retries (rs (recvs (trace s) + i))"
    and "ans = rs (recvs (trace s) + k)"
  shows "(k < fuel \<and> 0 < r_rc ans \<longrightarrow>
      (\<exists>t. run_state (wscli_recv env fuel sock n) s = (Some (r_rc ans, take (nat (r_rc ans)) (r_data ans)), t) \<and>
        recvs (trace t) = recvs (trace s) + Suc k)) \<and>
    (k < fuel \<and> (hard_error ans \<or> r_rc ans = 0 \<and> k = 0 \<and> \<not> try_again (errno s)) \<longrightarrow>
      (\<exists>t. run_state (wscli_recv env fuel sock n) s = (Some (- 1, []), t) \<and>
        recvs (trace t) = recvs (trace s) + Suc k)) \<and>
    ((\<forall>i. r_rc (rs (recvs (trace s) + k + i)) = 0) \<and> (0 < k \<or> try_again (errno s)) \<longrightarrow>
      result (wscli_recv env fuel sock n) s = None)"
proof (intro conjI impI; (elim conjE)?)
  have env: "env tr (Net (Recv sock n)) = rs (recvs tr)" for tr
    using assms(1) by (simp add: recv_script_def)
  from recv_after_retries [OF assms(1,2), of sock n] obtain u where
    u: "\<And>f. run_state (wscli_recv env (k + f) sock n) s = run_state (wscli_recv env f sock n) u"
      "recvs (trace u) = recvs (trace s) + k" "k = 0 \<longrightarrow> errno u = errno s" by blast
  {
    assume "k < fuel"
    then obtain f where "fuel = k + Suc f" using less_iff_Suc_add by auto
    then have run: "run_state (wscli_recv env fuel sock n) s = run_state (wscli_recv env (Suc f) sock n) u"
      using u(1) by blast
    show "\<exists>t. run_state (wscli_recv env fuel sock n) s = (Some (r_rc ans, take (nat (r_rc ans)) (r_data ans)), t) \<and>
        recvs (trace t) = recvs (trace s) + Suc k" if "0 < r_rc ans"
      unfolding run using that u(2) assms(3) by (auto simp: wscli_recv_def recv_body_def run_eval env)
    show "\<exists>t. run_state (wscli_recv env fuel sock n) s = (Some (- 1, []), t) \<and>
        recvs (trace t) = recvs (trace s) + Suc k"
      if "hard_error ans \<or> r_rc ans = 0 \<and> k = 0 \<and> \<not> try_again (errno s)"
      unfolding run using that u(2,3) assms(3)
      by (auto simp: wscli_recv_def recv_body_def run_eval env hard_error_def try_again_def)
  }
  show "result (wscli_recv env fuel sock n) s = None"
    if "\<forall>i. r_rc (rs (recvs (trace s) + k + i)) = 0" "0 < k \<or> try_again (errno s)"
    by (rule recv_closed_hangs [OF assms(1,2) that])
qed

definition slow_peer :: env where
  "slow_peer tr c = (case c of
     Net (Recv s n) \<Rightarrow>
       if recvs tr < 2 then (reply_rc (- 1))\<lparr>r_errno := EAGAIN\<rparr>
       else (reply_rc 2)\<lparr>r_data := [104, 105]\<rparr>
   | _ \<Rightarrow> reply_rc 0)"

theorem recv_waits_witness:
  "\<exists>t. run_state (wscli_recv slow_peer 3 4 1024) io0 = (Some (2, [104, 105]), t) \<and> recvs (trace t) = 3"
proof -
  have "recv_script (\<lambda>i. if i < 2 then (reply_rc (- 1))\<lparr>r_errno := EAGAIN\<rparr>
      else (reply_rc 2)\<lparr>r_data := [104, 105]\<rparr>) slow_peer"
    by (simp add: recv_script_def slow_peer_def)
  from recv_waits [OF this _ refl, of 2 io0 3 4 1024, THEN conjunct1] show ?thesis
    by (simp add: retries_def reply_rc_def io0_def)
qed

end
