(* ===== verification/HidReport.thy ===== *)
theory HidReport
  imports WsCli CString
begin

text \<open>
  The HID side of \<open>src/ble_rc.c\<close>: the report descriptor, the GATT service with its
  callbacks, sending a key, and the advertising payloads. \<open>bt_gatt_attr_read\<close> and
  \<open>bt_gatt_find_by_uuid\<close> belong to the Bluetooth host and are parameters. Numbers of the
  assigned-numbers documents (UUIDs, AD types) are written out.
\<close>

section \<open>Definitions\<close>

record hids_info =
  bcd_hid :: u16
  b_country_code :: byte
  flags :: byte

record hids_report =
  rpt_id :: byte
  rpt_type :: byte

definition info :: hids_info where
  "info = \<lparr>bcd_hid = 0x0111, b_country_code = 0, flags = 1\<rparr>"

definition HIDS_INPUT :: byte where
  "HIDS_INPUT = 1"

definition input :: hids_report where
  "input = \<lparr>rpt_id = 1, rpt_type = HIDS_INPUT\<rparr>"

text \<open>The packed structures as bytes, little endian.\<close>

definition info_bytes :: "hids_info \<Rightarrow> byte list" where
  "info_bytes i = [ucast (bcd_hid i), ucast (drop_bit 8 (bcd_hid i)), b_country_code i, flags i]"

definition report_bytes :: "hids_report \<Rightarrow> byte list" where
  "report_bytes r = [rpt_id r, rpt_type r]"

definition report_map :: "byte list" where
  "report_map = [
     0x05, 0x01,
     0x09, 0x06,
     0xa1, 0x01,
     0x05, 0x07,
     0x09, 0x06,
     0xa1, 0x01,
     0x85, 0x01,
     0x95, 0x03,
     0x75, 0x10,
     0x15, 0x00,
     0x25, 0xfe,
     0x19, 0x00,
     0x29, 0xfe,
     0x81, 0x00,
     0xc0,
     0x06, 0x00, 0xff,
     0x09, 0x00,
     0xa1, 0x01,
     0x85, 0x06,
     0x75, 0x08,
     0x95, 0x78,
     0x15, 0x00,
     0x25, 0xff,
     0x19, 0x00,
     0x29, 0xff,
     0x81, 0x00,
     0x85, 0x07,
     0x75, 0x08,
     0x95, 0x78,
     0x15, 0x00,
     0x25, 0xff,
     0x19, 0x00,
     0x29, 0xff,
     0x81, 0x00,
     0x85, 0x08,
     0x75, 0x08,
     0x95, 0x78,
     0x15, 0x00,
     0x25, 0xff,
     0x19, 0x00,
     0x29, 0xff,
     0x81, 0x00,
     0xc0,
     0xc0]"

record hid_st = wscli_st +
  simulate_input_allow :: byte
  ctrl_point :: byte
  report_val :: "byte list"

text \<open>
  The read callbacks: \<open>attr_read value len offset\<close> is \<open>bt_gatt_attr_read\<close> on the value the
  callback passes; it returns the result and the bytes stored in the buffer.
\<close>

type_synonym attr_reader = "byte list \<Rightarrow> u16 \<Rightarrow> u16 \<Rightarrow> int \<times> byte list"

definition read_info :: "attr_reader \<Rightarrow> u16 \<Rightarrow> u16 \<Rightarrow> int \<times> byte list" where
  "read_info attr_read len offset = attr_read (info_bytes info) len offset"

definition read_report_map :: "attr_reader \<Rightarrow> u16 \<Rightarrow> u16 \<Rightarrow> int \<times> byte list" where
  "read_report_map attr_read len offset = attr_read report_map len offset"

definition read_report :: "attr_reader \<Rightarrow> u16 \<Rightarrow> u16 \<Rightarrow> int \<times> byte list" where
  "read_report attr_read len offset = attr_read (report_bytes input) len offset"

definition read_input_report :: "attr_reader \<Rightarrow> u16 \<Rightarrow> u16 \<Rightarrow> int \<times> byte list" where
  "read_input_report attr_read len offset = attr_read [] len offset"

definition BT_GATT_CCC_NOTIFY :: u16 where
  "BT_GATT_CCC_NOTIFY = 1"

definition input_ccc_changed :: "u16 \<Rightarrow> ('a hid_st_scheme, unit) state" where
  "input_ccc_changed v =
     modify (simulate_input_allow_update (\<lambda>_. if v = BT_GATT_CCC_NOTIFY then 1 else 0))"

text \<open>
  \<open>write_ctrl_point\<close>: \<open>offset + len\<close> is computed as \<open>int\<close>, so it does not wrap; the copy
  goes to \<open>offset\<close> of the one-byte object. \<open>None\<close> is a store outside of it.
\<close>

definition BT_ATT_ERR_INVALID_OFFSET :: int where
  "BT_ATT_ERR_INVALID_OFFSET = 7"

definition memcpy_at :: "byte list \<Rightarrow> nat \<Rightarrow> byte list \<Rightarrow> byte list option" where
  "memcpy_at dst off d =
     (if off + length d \<le> length dst then Some (take off dst @ d @ drop (off + length d) dst) else None)"

definition write_ctrl_point ::
    "byte list \<Rightarrow> u16 \<Rightarrow> u16 \<Rightarrow> ('a hid_st_scheme, int option) state" where
  "write_ctrl_point buf len offset =
     (if unat offset + unat len > 1 then State_Monad.return (Some (- BT_ATT_ERR_INVALID_OFFSET))
      else do {
        v \<leftarrow> get_field ctrl_point;
        (case memcpy_at [v] (unat offset) (take (unat len) buf) of
           None \<Rightarrow> State_Monad.return None
         | Some v' \<Rightarrow> do {
             _ \<leftarrow> modify (ctrl_point_update (\<lambda>_. hd v'));
             State_Monad.return (Some (int (unat len)))
           })
      })"

text \<open>
  The attribute table: a service is one attribute, a characteristic two (its declaration
  and its value), a descriptor one.
\<close>

datatype gatt_attr =
    AttrPrimary u16
  | AttrDeclaration u16
  | AttrValue u16
  | AttrCCC
  | AttrDescriptor u16

datatype gatt_macro =
    BT_GATT_PRIMARY_SERVICE u16
  | BT_GATT_CHARACTERISTIC u16
  | BT_GATT_CCC
  | BT_GATT_DESCRIPTOR u16

fun gatt_attrs :: "gatt_macro \<Rightarrow> gatt_attr list" where
  "gatt_attrs (BT_GATT_PRIMARY_SERVICE u) = [AttrPrimary u]"
| "gatt_attrs (BT_GATT_CHARACTERISTIC u) = [AttrDeclaration u, AttrValue u]"
| "gatt_attrs BT_GATT_CCC = [AttrCCC]"
| "gatt_attrs (BT_GATT_DESCRIPTOR u) = [AttrDescriptor u]"

definition BT_UUID_HIDS :: u16 where "BT_UUID_HIDS = 0x1812"
definition BT_UUID_HIDS_INFO :: u16 where "BT_UUID_HIDS_INFO = 0x2a4a"
definition BT_UUID_HIDS_REPORT_MAP :: u16 where "BT_UUID_HIDS_REPORT_MAP = 0x2a4b"
definition BT_UUID_HIDS_CTRL_POINT :: u16 where "BT_UUID_HIDS_CTRL_POINT = 0x2a4c"
definition BT_UUID_HIDS_REPORT :: u16 where "BT_UUID_HIDS_REPORT = 0x2a4d"
definition BT_UUID_HIDS_REPORT_REF :: u16 where "BT_UUID_HIDS_REPORT_REF = 0x2908"

definition hid_svc :: "gatt_attr list" where
  "hid_svc = concat (map gatt_attrs
     [BT_GATT_PRIMARY_SERVICE BT_UUID_HIDS,
      BT_GATT_CHARACTERISTIC BT_UUID_HIDS_INFO,
      BT_GATT_CHARACTERISTIC BT_UUID_HIDS_REPORT_MAP,
      BT_GATT_CHARACTERISTIC BT_UUID_HIDS_REPORT,
      BT_GATT_CCC,
      BT_GATT_DESCRIPTOR BT_UUID_HIDS_REPORT_REF,
      BT_GATT_CHARACTERISTIC BT_UUID_HIDS_CTRL_POINT])"

text \<open>The type of an attribute: a declaration's is 0x2803 whatever characteristic it declares.\<close>

fun attr_uuid :: "gatt_attr \<Rightarrow> u16" where
  "attr_uuid (AttrPrimary u) = 0x2800"
| "attr_uuid (AttrDeclaration u) = 0x2803"
| "attr_uuid (AttrValue u) = u"
| "attr_uuid AttrCCC = 0x2902"
| "attr_uuid (AttrDescriptor u) = u"

type_synonym attr_finder = "gatt_attr list \<Rightarrow> u16 \<Rightarrow> nat option"

definition get_attrs :: "attr_finder \<Rightarrow> nat option" where
  "get_attrs finder = (case finder hid_svc BT_UUID_HIDS_REPORT of
     None \<Rightarrow> None
   | Some report_decl \<Rightarrow> Some (report_decl + 1))"

text \<open>Press and release, on the attribute with the given index.\<close>

definition notify_report :: "env \<Rightarrow> nat \<Rightarrow> byte list \<Rightarrow> ('a hid_st_scheme, unit) state" where
  "notify_report env attr v = do {
     _ \<leftarrow> modify (report_val_update (\<lambda>_. v));
     _ \<leftarrow> ext env (Bt (BtGattNotify attr v));
     State_Monad.return ()
   }"

definition zero_report :: "byte list" where
  "zero_report = replicate 8 0"

definition do_send_key2 :: "env \<Rightarrow> attr_finder \<Rightarrow> byte \<Rightarrow> ('a hid_st_scheme, int) state" where
  "do_send_key2 env finder key = (case get_attrs finder of
     None \<Rightarrow> State_Monad.return (- 1)
   | Some attr \<Rightarrow> do {
       _ \<leftarrow> notify_report env attr (zero_report[2 := key]);
       _ \<leftarrow> ext env (Kern (KSleepMs 50));
       _ \<leftarrow> notify_report env attr zero_report;
       State_Monad.return 0
     })"

definition do_send_key :: "env \<Rightarrow> byte \<Rightarrow> ('a hid_st_scheme, int) state" where
  "do_send_key env key = do {
     _ \<leftarrow> notify_report env 6 (zero_report[2 := key]);
     _ \<leftarrow> ext env (Kern (KSleepMs 50));
     _ \<leftarrow> notify_report env 6 zero_report;
     State_Monad.return 0
   }"

definition cmd_send_key :: "env \<Rightarrow> cstr list \<Rightarrow> ('a hid_st_scheme, int) state" where
  "cmd_send_key env argv =
     (if length argv < 2 then State_Monad.return (- EINVAL)
      else do {
        let key = word_of_int (strtol (argv ! 1) 16);
        _ \<leftarrow> do_send_key env key;
        _ \<leftarrow> ext env (Shell (ShellText (''Sent keycode 0x'' @ hex2 key)));
        State_Monad.return 0
      })"

text \<open>
  The advertising payloads: the connectable one, the scan response with the device name
  (configuration), and the wake-up one, whose last field is the paired host's address.
\<close>

text \<open>The flags 0x06 are \<open>BT_LE_AD_GENERAL | BT_LE_AD_NO_BREDR\<close>.\<close>

definition ad :: "bt_data list" where
  "ad = [(0x01, [0x06]), (0x19, [0x80, 0x01]), (0x03, [0x12, 0x18])]"

definition sd :: "byte list \<Rightarrow> bt_data list" where
  "sd device_name = [(0x09, device_name)]"

definition mfg_data :: "byte list" where
  "mfg_data = [0x00, 0x01]"

definition ad_wakeup :: "byte list \<Rightarrow> bt_data list" where
  "ad_wakeup fe = [(0x01, [0x06]), (0x19, [0x80, 0x01]), (0x03, [0x12, 0x18]),
     (0xff, take 2 mfg_data), (0xfe, take 3 fe)]"

section \<open>The report descriptor\<close>

text \<open>
  A HID descriptor is a sequence of short items: the two low bits of the prefix give the
  number of data bytes (3 means 4), the rest the kind of item.
\<close>

definition item_size :: "byte \<Rightarrow> nat" where
  "item_size p = (if unat p mod 4 = 3 then 4 else unat p mod 4)"

fun hid_items :: "byte list \<Rightarrow> (byte \<times> byte list) list option" where
  "hid_items [] = Some []"
| "hid_items (p # rest) =
     (if length rest < item_size p then None
      else map_option (\<lambda>is. (and p 0xfc, take (item_size p) rest) # is) (hid_items (drop (item_size p) rest)))"

text \<open>
  Reading the items: the current report id, size and count, the depth of collections and
  the bits each input report has so far.
\<close>

record hid_parse =
  cur_id :: nat
  cur_size :: nat
  cur_count :: nat
  depth :: nat
  inputs :: "(nat \<times> nat) list"

definition item_value :: "byte list \<Rightarrow> nat" where
  "item_value d = foldr (\<lambda>b n. unat b + 256 * n) d 0"

definition hid_step :: "hid_parse \<Rightarrow> byte \<times> byte list \<Rightarrow> hid_parse option" where
  "hid_step h it = (case it of (p, d) \<Rightarrow>
     if p = 0x74 then Some (h\<lparr>cur_size := item_value d\<rparr>)
     else if p = 0x94 then Some (h\<lparr>cur_count := item_value d\<rparr>)
     else if p = 0x84 then Some (h\<lparr>cur_id := item_value d\<rparr>)
     else if p = 0xa0 then Some (h\<lparr>depth := Suc (depth h)\<rparr>)
     else if p = 0xc0 then (if depth h = 0 then None else Some (h\<lparr>depth := depth h - 1\<rparr>))
     else if p = 0x80 then Some (h\<lparr>inputs := inputs h @ [(cur_id h, cur_size h * cur_count h)]\<rparr>)
     else Some h)"

fun hid_run :: "hid_parse \<Rightarrow> (byte \<times> byte list) list \<Rightarrow> hid_parse option" where
  "hid_run h [] = Some h"
| "hid_run h (i # is) = (case hid_step h i of None \<Rightarrow> None | Some h' \<Rightarrow> hid_run h' is)"

definition hid_inputs :: "byte list \<Rightarrow> (nat \<times> nat) list option" where
  "hid_inputs bs = (case hid_items bs of None \<Rightarrow> None
     | Some is \<Rightarrow> (case hid_run \<lparr>cur_id = 0, cur_size = 0, cur_count = 0, depth = 0, inputs = []\<rparr> is of
         None \<Rightarrow> None
       | Some h \<Rightarrow> if depth h = 0 then Some (inputs h) else None))"

section \<open>Properties\<close>

text \<open>The notifications of a trace.\<close>

fun notification :: "event \<Rightarrow> (nat \<times> byte list) list" where
  "notification (Bt (BtGattNotify a v), r) = [(a, v)]"
| "notification _ = []"

definition notifications :: "event list \<Rightarrow> (nat \<times> byte list) list" where
  "notifications tr = concat (map notification tr)"

lemma notifications_append [simp]: "notifications (xs @ ys) = notifications xs @ notifications ys"
  by (simp add: notifications_def)

lemma notifications_Cons [simp]: "notifications (e # es) = notification e @ notifications es"
  by (simp add: notifications_def)

lemma notifications_Nil [simp]: "notifications [] = []"
  by (simp add: notifications_def)

text \<open>
  the report descriptor is well formed and declares 48 bits for input report 1, the
  one the service's report characteristic stands for, and 960 bits for each of the reports
  6, 7 and 8; every key, however, is sent as two notifications of 8 bytes (64 bits), so
  the reports are two bytes longer than declared.
\<close>

theorem report_map_inputs:
  "hid_inputs report_map = Some [(1, 48), (6, 960), (7, 960), (8, 960)] \<and>
   rpt_id input = 1 \<and>
   map (\<lambda>(a, v). 8 * length v) (notifications (trace (final (do_send_key env key) s))) =
     map (\<lambda>(a, v). 8 * length v) (notifications (trace s)) @ [64, 64]"
proof -
  have "hid_inputs report_map = Some [(1, 48), (6, 960), (7, 960), (8, 960)]"
    by code_simp
  then show ?thesis
    by (simp add: input_def final_def do_send_key_def notify_report_def run_eval zero_report_def)
qed

text \<open>
  C38: a key that \<open>cmd_send_key\<close> is given in hexadecimal, with or without \<open>0x\<close>, is pressed
  and released: the value attribute of the report characteristic is notified once with
  the key in byte 2 of an otherwise empty report and once with the empty report, which is
  also what the report buffer holds afterwards.
\<close>

theorem cmd_send_key_presses:
  assumes "w = hex2 key \<or> w = ''0x'' @ hex2 key"
    and "run_state (cmd_send_key env [c, w]) s = (r, t)"
  shows "r = 0 \<and> hid_svc ! 6 = AttrValue BT_UUID_HIDS_REPORT \<and>
    notifications (trace t) = notifications (trace s) @
      [(6, [0, 0, key, 0, 0, 0, 0, 0]), (6, zero_report)] \<and>
    report_val t = zero_report"
proof -
  have "word_of_int (strtol w 16) = key"
    using assms(1) strtol_0x_hex2 [of key] by (auto simp: strtol_hex2)
  then show ?thesis
    using assms(2) unfolding cmd_send_key_def do_send_key_def notify_report_def
    by (auto simp: run_iff zero_report_def hid_svc_def eval_nat_numeral)
qed

definition hid0 :: hid_st where
  "hid0 = \<lparr>trace = [], errno = 0, g_sock4 = - 1, g_websock4 = - 1, simulate_input_allow = 0,
     ctrl_point = 0, report_val = zero_report\<rparr>"

theorem cmd_send_key_presses_witness:
  "notifications (trace (final (cmd_send_key (sim_env []) [''send'', ''0x66'']) hid0)) =
     [(6, [0, 0, 0x66, 0, 0, 0, 0, 0]), (6, zero_report)]"
proof -
  have "''0x66'' = ''0x'' @ hex2 0x66" by code_simp
  with cmd_send_key_presses [OF _ run_result, of "''0x66''" "0x66" "sim_env []" "''send''" hid0]
  show ?thesis by (simp add: hid0_def)
qed

text \<open>
  C39: the control point accepts exactly the writes inside its one byte; every other write
  is refused with the offset error before anything is stored, and no write leaves the
  object.
\<close>

theorem write_ctrl_point_safe:
  assumes "length buf = unat len" and "run_state (write_ctrl_point buf len offset) s = (r, t)"
  shows "(r = Some (- 7) \<and> 1 < unat offset + unat len \<and> t = s) \<or>
    (r = Some 0 \<and> len = 0 \<and> unat offset \<le> 1 \<and> ctrl_point t = ctrl_point s) \<or>
    (r = Some 1 \<and> len = 1 \<and> offset = 0 \<and> ctrl_point t = hd buf)"
proof (cases "1 < unat offset + unat len")
  case True
  with assms(2) show ?thesis
    by (auto simp: write_ctrl_point_def run_iff BT_ATT_ERR_INVALID_OFFSET_def)
next
  case False
  then consider (none) "unat len = 0" "unat offset \<le> 1" | (one) "unat len = 1" "unat offset = 0"
    by linarith
  then show ?thesis
  proof cases
    case none
    with assms False show ?thesis
      by (auto simp: write_ctrl_point_def run_iff memcpy_at_def unat_eq_zero le_Suc_eq split: if_splits)
  next
    case one
    then have "len = 1" "offset = 0" by (simp_all add: word_unat_eq_iff)
    with one assms show ?thesis
      by (auto simp: write_ctrl_point_def run_iff memcpy_at_def length_Suc_conv)
  qed
qed

theorem write_ctrl_point_safe_witness:
  "ctrl_point (final (write_ctrl_point [5] 1 0) hid0) = 5"
proof -
  have "result (write_ctrl_point [5] 1 0) hid0 = Some 1" by code_simp
  with write_ctrl_point_safe [OF _ run_result, of "[5]" 1 0 hid0] show ?thesis by simp
qed

text \<open>\<open>bt_gatt_find_by_uuid\<close> as documented: the first attribute of that type.\<close>

definition finds_first :: "attr_finder \<Rightarrow> bool" where
  "finds_first f \<longleftrightarrow> (\<forall>as u. f as u = (case filter (\<lambda>i. attr_uuid (as ! i) = u) [0..<length as] of
     [] \<Rightarrow> None | i # is \<Rightarrow> Some i))"

text \<open>
  \<open>get_attrs\<close> steps one attribute too far: the search already yields the value of the
  report characteristic, so \<open>do_send_key2\<close> notifies the attribute behind it, the client
  configuration, and not the one \<open>do_send_key\<close> notifies.
\<close>

theorem get_attrs_is_ccc:
  assumes "finds_first finder"
  shows "get_attrs finder = Some 7 \<and> hid_svc ! 7 = AttrCCC \<and>
    notifications (trace (final (do_send_key2 env finder key) s)) =
      notifications (trace s) @ [(7, zero_report[2 := key]), (7, zero_report)]"
proof -
  have "filter (\<lambda>i. attr_uuid (hid_svc ! i) = BT_UUID_HIDS_REPORT) [0..<length hid_svc] = [6]"
    by code_simp
  with assms have "get_attrs finder = Some 7"
    by (simp add: get_attrs_def finds_first_def)
  moreover have "hid_svc ! 7 = AttrCCC" by code_simp
  ultimately show ?thesis
    by (simp add: final_def do_send_key2_def notify_report_def run_eval)
qed

theorem get_attrs_is_ccc_witness:
  "get_attrs (\<lambda>as u. case filter (\<lambda>i. attr_uuid (as ! i) = u) [0..<length as] of
     [] \<Rightarrow> None | i # is \<Rightarrow> Some i) = Some 7"
proof -
  have "finds_first (\<lambda>as u. case filter (\<lambda>i. attr_uuid (as ! i) = u) [0..<length as] of
     [] \<Rightarrow> None | i # is \<Rightarrow> Some i)"
    by (simp add: finds_first_def)
  from get_attrs_is_ccc [OF this] show ?thesis by blast
qed

definition payload_length :: "bt_data list \<Rightarrow> nat" where
  "payload_length ds = sum_list (map (\<lambda>(t, d). 2 + length d) ds)"

text \<open>
  every advertising packet fits the 31 bytes of a legacy packet: each field takes two
  bytes beside its data, and the scan response has room for device names of up to 29
  bytes (the configured one has 27 in UTF-8).
\<close>

theorem adv_payloads_fit:
  "payload_length ad = 11 \<and> payload_length (ad_wakeup [a, b, c]) = 20 \<and>
   (payload_length (sd device_name) \<le> 31 \<longleftrightarrow> length device_name \<le> 29)"
  by (auto simp: payload_length_def ad_def ad_wakeup_def sd_def mfg_data_def eval_nat_numeral)

end
