(* ===== verification/BleRc.thy ===== *)
theory BleRc
  imports HidReport
begin

text \<open>
  The advertising and connection logic of \<open>src/ble_rc.c\<close>. Two contexts run it: the system
  work queue (\<open>advertising_process\<close>, \<open>adv_mode_switch_handler\<close>) and the threads that call
  \<open>try_advertising_start\<close>; both sleep for 100 ms in the middle. The functions are
  therefore also given as the parts before and behind their sleep, which the step
  relation of theory \<open>BleSteps\<close> interleaves.
\<close>

section \<open>Definitions\<close>

datatype btrc = BTRC_ST_DISCONNECTE | BTRC_ST_CONNECTED | BTRC_ST_SECURITY_LV_OK

record ble_st = hid_st +
  g_btrc_st :: btrc
  is_adv_running :: bool
  g_wakeup_adv_mode :: bool
  g_id :: int
  g_rc_last_paired_addr :: bt_addr
  fe_data :: "byte list"
  uuid_data :: "byte list"
  g_bt_ck_running :: bool
  mem_fault :: bool

definition BT_ADDR_LE_NONE :: bt_addr where
  "BT_ADDR_LE_NONE = BtAddr 0 (replicate 6 0xff)"

definition BT_ID_DEFAULT :: int where
  "BT_ID_DEFAULT = 0"

text \<open>
  The byte arrays of the file are accessed by constant indices. An access outside of its
  array is \<open>None\<close>, and \<open>mem_fault\<close> is set where the code goes on behind one: from then on
  the model says nothing about the device.
\<close>

definition load :: "byte list \<Rightarrow> nat \<Rightarrow> byte option" where
  "load a i = (if i < length a then Some (a ! i) else None)"

definition store :: "byte list \<Rightarrow> nat \<Rightarrow> byte \<Rightarrow> byte list option" where
  "store a i b = (if i < length a then Some (a[i := b]) else None)"

text \<open>The identity that bonds and advertising use; \<open>adv_param.id\<close> is only set when there is one.\<close>

definition bond_id :: "int \<Rightarrow> int" where
  "bond_id gid = (if gid < 0 then BT_ID_DEFAULT else gid)"

definition with_identity :: "int \<Rightarrow> adv_preset \<Rightarrow> adv_param" where
  "with_identity gid p =
     \<lparr>preset = p, use_identity = True, adv_id = (if gid \<ge> 0 then Some gid else None)\<rparr>"

definition advertising_continue :: "env \<Rightarrow> byte list \<Rightarrow> ('a ble_st_scheme, unit) state" where
  "advertising_continue env device_name = do {
     running \<leftarrow> get_field is_adv_running;
     (if running then State_Monad.return ()
      else do {
        wakeup \<leftarrow> get_field g_wakeup_adv_mode;
        addr \<leftarrow> get_field g_rc_last_paired_addr;
        gid \<leftarrow> get_field g_id;
        err \<leftarrow> (if \<not> wakeup then
                 (if addr = BT_ADDR_LE_NONE
                  then ext env (Bt (BtLeAdvStart (with_identity gid ADV_CONN_FAST_1) ad (sd device_name)))
                  else ext env (Bt (BtLeAdvStart (with_identity gid (ADV_CONN_DIR addr)) [] [])))
               else do {
                 fe \<leftarrow> get_field fe_data;
                 ext env (Bt (BtLeAdvStart (with_identity gid ADV_NCONN_FAST) (ad_wakeup fe) (sd device_name)))
               });
        (if r_rc err \<noteq> 0 then State_Monad.return ()
         else modify (is_adv_running_update (\<lambda>_. True)))
      })
   }"

text \<open>\<open>bond_find\<close> runs for every bond, so the last one visited stays.\<close>

definition bond_find :: "bt_addr \<Rightarrow> 'a ble_st_scheme \<Rightarrow> 'a ble_st_scheme" where
  "bond_find addr s = s\<lparr>g_rc_last_paired_addr := addr\<rparr>"

definition advertising_start :: "env \<Rightarrow> ('a ble_st_scheme, unit) state" where
  "advertising_start env = do {
     _ \<leftarrow> modify (g_rc_last_paired_addr_update (\<lambda>_. BT_ADDR_LE_NONE));
     gid \<leftarrow> get_field g_id;
     r \<leftarrow> ext env (Bt (BtForeachBond (bond_id gid)));
     _ \<leftarrow> modify (fold bond_find (r_bonds r));
     running \<leftarrow> get_field is_adv_running;
     (if running then State_Monad.return ()
      else do { _ \<leftarrow> ext env (Bt KWorkSubmitAdv); State_Monad.return () })
   }"

definition advertising_stop :: "env \<Rightarrow> ('a ble_st_scheme, int) state" where
  "advertising_stop env = do {
     running \<leftarrow> get_field is_adv_running;
     (if \<not> running then State_Monad.return 0
      else do {
        err \<leftarrow> ext env (Bt BtLeAdvStop);
        (if r_rc err \<noteq> 0 then State_Monad.return (- 1)
         else do {
           _ \<leftarrow> modify (is_adv_running_update (\<lambda>_. False));
           State_Monad.return 0
         })
      })
   }"

definition advertising_process :: "env \<Rightarrow> byte list \<Rightarrow> ('a ble_st_scheme, unit) state" where
  "advertising_process env device_name = advertising_continue env device_name"

definition update_fe_data :: "bt_addr option \<Rightarrow> 'a ble_st_scheme \<Rightarrow> 'a ble_st_scheme" where
  "update_fe_data dst s = (case dst of
     None \<Rightarrow> s
   | Some a \<Rightarrow>
       (case do {
          b0 \<leftarrow> load (addr_val a) 0;
          fe \<leftarrow> store (fe_data s) 0 b0;
          b1 \<leftarrow> load (addr_val a) 1;
          fe \<leftarrow> store fe 1 b1;
          b2 \<leftarrow> load (addr_val a) 2;
          store fe 2 b2
        } of
          None \<Rightarrow> s\<lparr>mem_fault := True\<rparr>
        | Some fe \<Rightarrow> s\<lparr>fe_data := fe\<rparr>))"

definition BT_HCI_ERR_ADV_TIMEOUT :: byte where
  "BT_HCI_ERR_ADV_TIMEOUT = 0x3c"

definition connected :: "env \<Rightarrow> bt_addr option \<Rightarrow> byte \<Rightarrow> ('a ble_st_scheme, unit) state" where
  "connected env dst err = do {
     _ \<leftarrow> modify (is_adv_running_update (\<lambda>_. False));
     _ \<leftarrow> modify (update_fe_data dst);
     _ \<leftarrow> modify (\<lambda>s. case dst of None \<Rightarrow> s | Some a \<Rightarrow> s\<lparr>g_rc_last_paired_addr := a\<rparr>);
     (if err \<noteq> 0 then
        (if err = BT_HCI_ERR_ADV_TIMEOUT
         then do { _ \<leftarrow> ext env (Bt (KWorkRescheduleSwitch (2 * 1000))); State_Monad.return () }
         else State_Monad.return ())
      else do {
        _ \<leftarrow> ext env (Bt BtSetSecurityL2);
        _ \<leftarrow> ext env (Bt (BtConnParamUpdate 12 24 29 300));
        modify (g_btrc_st_update (\<lambda>_. BTRC_ST_CONNECTED))
      })
   }"

definition try_unpair :: "env \<Rightarrow> bt_addr \<Rightarrow> ('a ble_st_scheme, unit) state" where
  "try_unpair env addr = do {
     gid \<leftarrow> get_field g_id;
     _ \<leftarrow> ext env (Bt (BtUnpair (bond_id gid) addr));
     State_Monad.return ()
   }"

definition disconnected :: "env \<Rightarrow> bt_addr option \<Rightarrow> byte \<Rightarrow> ('a ble_st_scheme, unit) state" where
  "disconnected env dst reason = (case dst of
     None \<Rightarrow> State_Monad.return ()
   | Some a \<Rightarrow> do {
       _ \<leftarrow> modify (g_btrc_st_update (\<lambda>_. BTRC_ST_DISCONNECTE));
       _ \<leftarrow> ext env (Bt (KWorkRescheduleSwitch (2 * 1000)));
       State_Monad.return ()
     })"

definition security_changed_cb :: "int \<Rightarrow> ('a ble_st_scheme, unit) state" where
  "security_changed_cb err =
     (if err = 0 then modify (g_btrc_st_update (\<lambda>_. BTRC_ST_SECURITY_LV_OK))
      else State_Monad.return ())"

text \<open>\<open>try_advertising_start\<close>, before and behind its sleep.\<close>

definition try_advertising_begin :: "env \<Rightarrow> bool \<Rightarrow> ('a ble_st_scheme, unit) state" where
  "try_advertising_begin env isWakeup = do {
     _ \<leftarrow> ext env (Bt KWorkCancelSwitch);
     _ \<leftarrow> modify (g_wakeup_adv_mode_update (\<lambda>_. isWakeup));
     _ \<leftarrow> advertising_stop env;
     State_Monad.return ()
   }"

text \<open>
  \<open>time_s * 1000\<close> is an \<open>int\<close>: it wraps at 32 bits (Zephyr compiles with
  \<open>-fno-strict-overflow\<close>). A negative time to \<open>K_MSEC\<close> is no wait at all.
\<close>

definition seconds_in_ms :: "int \<Rightarrow> int" where
  "seconds_in_ms time_s = sint (word_of_int (time_s * 1000) :: u32)"

definition try_advertising_end :: "env \<Rightarrow> int \<Rightarrow> ('a ble_st_scheme, int) state" where
  "try_advertising_end env time_s = do {
     _ \<leftarrow> advertising_start env;
     (if time_s \<noteq> 0 then do {
        _ \<leftarrow> ext env (Bt (KWorkRescheduleSwitch (seconds_in_ms time_s)));
        State_Monad.return 0
      } else State_Monad.return 0)
   }"

definition try_advertising_start :: "env \<Rightarrow> bool \<Rightarrow> int \<Rightarrow> ('a ble_st_scheme, int) state" where
  "try_advertising_start env isWakeup time_s = do {
     _ \<leftarrow> try_advertising_begin env isWakeup;
     _ \<leftarrow> ext env (Kern (KSleepMs 100));
     try_advertising_end env time_s
   }"

definition continue_time_s :: "cstr list \<Rightarrow> int" where
  "continue_time_s argv = (if length argv \<ge> 2 then atoi (argv ! 1) else 5)"

definition cmd_start_adv :: "env \<Rightarrow> cstr list \<Rightarrow> ('a ble_st_scheme, int) state" where
  "cmd_start_adv env argv = do {
     _ \<leftarrow> try_advertising_start env False (continue_time_s argv);
     State_Monad.return 0
   }"

definition cmd_wakeup :: "env \<Rightarrow> cstr list \<Rightarrow> ('a ble_st_scheme, int) state" where
  "cmd_wakeup env argv = do {
     _ \<leftarrow> try_advertising_start env True (continue_time_s argv);
     State_Monad.return 0
   }"

definition cmd_delete_paired :: "env \<Rightarrow> ('a ble_st_scheme, int) state" where
  "cmd_delete_paired env = do {
     addr \<leftarrow> get_field g_rc_last_paired_addr;
     _ \<leftarrow> try_unpair env addr;
     _ \<leftarrow> advertising_stop env;
     _ \<leftarrow> modify (g_rc_last_paired_addr_update (\<lambda>_. BT_ADDR_LE_NONE));
     State_Monad.return 0
   }"

text \<open>The delayed work that falls back to pairing mode, likewise in two parts.\<close>

definition switch_begin :: "env \<Rightarrow> ('a ble_st_scheme, unit) state" where
  "switch_begin env = do { _ \<leftarrow> advertising_stop env; State_Monad.return () }"

definition switch_end :: "env \<Rightarrow> ('a ble_st_scheme, unit) state" where
  "switch_end env = do {
     _ \<leftarrow> modify (g_wakeup_adv_mode_update (\<lambda>_. False));
     st \<leftarrow> get_field g_btrc_st;
     (if st = BTRC_ST_DISCONNECTE then advertising_start env else State_Monad.return ())
   }"

definition adv_mode_switch_handler :: "env \<Rightarrow> ('a ble_st_scheme, unit) state" where
  "adv_mode_switch_handler env = do {
     _ \<leftarrow> switch_begin env;
     _ \<leftarrow> ext env (Kern (KSleepMs 100));
     switch_end env
   }"

definition adv_mode_switch_delay_work_cancle :: "env \<Rightarrow> ('a ble_st_scheme, unit) state" where
  "adv_mode_switch_delay_work_cancle env = do {
     _ \<leftarrow> ext env (Bt KWorkCancelSwitch);
     _ \<leftarrow> advertising_stop env;
     _ \<leftarrow> ext env (Kern (KSleepMs 100));
     modify (g_wakeup_adv_mode_update (\<lambda>_. False))
   }"

text \<open>\<open>__swap_addr\<close> on the bytes of an array from index \<open>i\<close>: six of them are reversed.\<close>

definition swap_addr :: "byte list \<Rightarrow> nat \<Rightarrow> byte list option" where
  "swap_addr a i = do {
     t0 \<leftarrow> load a i;
     t1 \<leftarrow> load a (i + 1);
     t2 \<leftarrow> load a (i + 2);
     b5 \<leftarrow> load a (i + 5);
     a \<leftarrow> store a i b5;
     b4 \<leftarrow> load a (i + 4);
     a \<leftarrow> store a (i + 1) b4;
     b3 \<leftarrow> load a (i + 3);
     a \<leftarrow> store a (i + 2) b3;
     a \<leftarrow> store a (i + 3) t2;
     a \<leftarrow> store a (i + 4) t1;
     store a (i + 5) t0
   }"

definition BT_ADDR_LE_RANDOM :: byte where
  "BT_ADDR_LE_RANDOM = 1"

definition set_public_addr :: "env \<Rightarrow> ('a ble_st_scheme, unit) state" where
  "set_public_addr env = (case swap_addr [0xF4, 0x72, 0x57, 0x66, 0x66, 0x66] 0 of
     None \<Rightarrow> modify (mem_fault_update (\<lambda>_. True))
   | Some val \<Rightarrow> do {
       r \<leftarrow> ext env (Bt (BtIdCreate (BtAddr BT_ADDR_LE_RANDOM val)));
       modify (g_id_update (\<lambda>_. r_rc r))
     })"

definition fix_uuid_data :: "('a ble_st_scheme, unit) state" where
  "fix_uuid_data = modify (\<lambda>s. case swap_addr (uuid_data s) 9 of
     None \<Rightarrow> s\<lparr>mem_fault := True\<rparr>
   | Some u \<Rightarrow> s\<lparr>uuid_data := u\<rparr>)"

definition ble_rc_init :: "env \<Rightarrow> bool \<Rightarrow> ('a ble_st_scheme, int) state" where
  "ble_rc_init env settings = do {
     _ \<leftarrow> modify (g_rc_last_paired_addr_update (\<lambda>_. BT_ADDR_LE_NONE));
     _ \<leftarrow> fix_uuid_data;
     _ \<leftarrow> set_public_addr env;
     err \<leftarrow> ext env (Bt BtEnable);
     (if r_rc err \<noteq> 0 then State_Monad.return 0
      else do {
        _ \<leftarrow> (if settings then do { _ \<leftarrow> ext env (Bt SettingsLoad); State_Monad.return () }
              else State_Monad.return ());
        _ \<leftarrow> ext env (Bt KThreadStart);
        State_Monad.return 0
      })
   }"

definition fe_data_init :: "byte list" where
  "fe_data_init = [0x57, 0x11, 0x30]"

definition uuid_data_init :: "byte list" where
  "uuid_data_init = [0x00, 0x01, 0x02, 0x01, 0x05, 0x03, 0xff, 0x00, 0x01,
     0xC8, 0x26, 0xE2, 0x17, 0xDC, 0x52, 0x00]"

section \<open>The byte arrays\<close>

lemma six_bytes:
  assumes "length a = 6"
  obtains b0 b1 b2 b3 b4 b5 where "a = [b0, b1, b2, b3, b4, b5]"
  using assms by (auto simp: eval_nat_numeral length_Suc_conv)

text \<open>Six bytes that are there are reversed, the others stay.\<close>

lemma swap_addr_rev:
  assumes "length v = 6"
  shows "swap_addr (x @ v @ y) (length x) = Some (x @ rev v @ y)"
proof -
  obtain b0 b1 b2 b3 b4 b5 where "v = [b0, b1, b2, b3, b4, b5]" using six_bytes [OF assms] .
  then show ?thesis
    by (simp add: swap_addr_def load_def store_def nth_append list_update_append numeral_eq_Suc)
qed

lemma take_take_drop: "take i a @ take n (drop i a) @ drop (i + n) a = a"
  by (metis append_take_drop_id drop_drop add.commute)

lemma swap_addr_at:
  assumes "i + 6 \<le> length a"
  shows "swap_addr a i = Some (take i a @ rev (take 6 (drop i a)) @ drop (i + 6) a)"
  using swap_addr_rev [of "take 6 (drop i a)" "take i a" "drop (i + 6) a"] assms
  by (simp add: take_take_drop)

lemma swap_addr_none: "length a < i + 6 \<Longrightarrow> swap_addr a i = None"
  by (auto simp: swap_addr_def load_def store_def split: option.splits)

lemma set_public_addr_eq:
  "set_public_addr env = do {
     r \<leftarrow> ext env (Bt (BtIdCreate (BtAddr BT_ADDR_LE_RANDOM [0x66, 0x66, 0x66, 0x57, 0x72, 0xF4])));
     modify (g_id_update (\<lambda>_. r_rc r))
   }"
  by (simp add: set_public_addr_def swap_addr_at)

section \<open>The host as the trace shows it\<close>

text \<open>
  What is on the air, whether \<open>adv_work\<close> is queued and \<open>adv_mode_switch_work\<close> scheduled,
  and whether advertising was ever started while it was on.
\<close>

record host =
  air :: "adv_preset option"
  adv_queued :: bool
  switch_set :: bool
  doubled :: bool

definition host0 :: host where
  "host0 = \<lparr>air = None, adv_queued = False, switch_set = False, doubled = False\<rparr>"

fun host_after :: "host \<Rightarrow> event \<Rightarrow> host" where
  "host_after h (Bt (BtLeAdvStart p a d), r) =
     h\<lparr>air := (if r_rc r = 0 then Some (preset p) else air h),
       doubled := (doubled h \<or> air h \<noteq> None)\<rparr>"
| "host_after h (Bt BtLeAdvStop, r) = (if r_rc r = 0 then h\<lparr>air := None\<rparr> else h)"
| "host_after h (Bt KWorkSubmitAdv, r) = h\<lparr>adv_queued := True\<rparr>"
| "host_after h (Bt (KWorkRescheduleSwitch ms), r) = h\<lparr>switch_set := True\<rparr>"
| "host_after h (Bt KWorkCancelSwitch, r) = h\<lparr>switch_set := False\<rparr>"
| "host_after h (Bt HostAdvEnded, r) = h\<lparr>air := None\<rparr>"
| "host_after h (Bt HostRunAdvWork, r) = h\<lparr>adv_queued := False\<rparr>"
| "host_after h (Bt HostRunSwitchWork, r) = h\<lparr>switch_set := False\<rparr>"
| "host_after h _ = h"

definition host_of :: "event list \<Rightarrow> host" where
  "host_of tr = foldl host_after host0 tr"

lemma host_of_append [simp]: "host_of (tr @ es) = foldl host_after (host_of tr) es"
  by (simp add: host_of_def)

lemma host_of_Nil [simp]: "host_of [] = host0"
  by (simp add: host_of_def)

text \<open>
  The flag mirrors the radio, and nothing was started twice. Every operation keeps it,
  for every platform.
\<close>

definition adv_ok :: "'a ble_st_scheme \<Rightarrow> bool" where
  "adv_ok s \<longleftrightarrow> (is_adv_running s \<longleftrightarrow> air (host_of (trace s)) \<noteq> None) \<and>
     \<not> doubled (host_of (trace s))"

named_theorems adv_rules \<open>the operations keep the advertising invariant\<close>

lemma fold_bond_find:
  "fold bond_find as s = s\<lparr>g_rc_last_paired_addr := last (g_rc_last_paired_addr s # as)\<rparr>"
  by (induction as arbitrary: s) (auto simp: bond_find_def)

lemmas adv_defs = advertising_start_def advertising_stop_def try_advertising_begin_def
  try_advertising_end_def switch_begin_def switch_end_def fold_bond_find

lemma advertising_continue_ok [adv_rules]:
  "run_state (advertising_continue env nm) s = (u, t) \<Longrightarrow> adv_ok s \<Longrightarrow> adv_ok t"
  unfolding advertising_continue_def adv_ok_def
  by (auto simp: run_iff with_identity_def)

lemma advertising_stop_ok [adv_rules]:
  "run_state (advertising_stop env) s = (r, t) \<Longrightarrow> adv_ok s \<Longrightarrow> adv_ok t"
  unfolding adv_ok_def by (auto simp: run_iff adv_defs)

lemma advertising_start_ok [adv_rules]:
  "run_state (advertising_start env) s = (u, t) \<Longrightarrow> adv_ok s \<Longrightarrow> adv_ok t"
  unfolding adv_ok_def by (auto simp: run_iff adv_defs)

lemma try_advertising_begin_ok [adv_rules]:
  "run_state (try_advertising_begin env w) s = (u, t) \<Longrightarrow> adv_ok s \<Longrightarrow> adv_ok t"
  unfolding adv_ok_def by (auto simp: run_iff adv_defs)

lemma try_advertising_end_ok [adv_rules]:
  "run_state (try_advertising_end env n) s = (r, t) \<Longrightarrow> adv_ok s \<Longrightarrow> adv_ok t"
  unfolding adv_ok_def by (auto simp: run_iff adv_defs)

lemma switch_begin_ok [adv_rules]:
  "run_state (switch_begin env) s = (u, t) \<Longrightarrow> adv_ok s \<Longrightarrow> adv_ok t"
  unfolding adv_ok_def by (auto simp: run_iff adv_defs)

lemma switch_end_ok [adv_rules]:
  "run_state (switch_end env) s = (u, t) \<Longrightarrow> adv_ok s \<Longrightarrow> adv_ok t"
  unfolding adv_ok_def by (auto simp: run_iff adv_defs)

lemma adv_ok_sleep [simp]:
  "adv_ok (s\<lparr>trace := trace s @ [(Kern (KSleepMs n), r)]\<rparr>) \<longleftrightarrow> adv_ok s"
  by (simp add: adv_ok_def)

lemma try_advertising_start_ok [adv_rules]:
  assumes "run_state (try_advertising_start env w n) s = (r, t)" and "adv_ok s"
  shows "adv_ok t"
proof -
  from assms(1) obtain u v x where "run_state (try_advertising_begin env w) s = (x, u)"
    and "\<exists>q. v = u\<lparr>trace := trace u @ [(Kern (KSleepMs 100), q)]\<rparr>"
    and "run_state (try_advertising_end env n) v = (r, t)"
    unfolding try_advertising_start_def by (auto simp: run_iff)
  with assms(2) show ?thesis
    by (metis adv_ok_sleep try_advertising_begin_ok try_advertising_end_ok)
qed

lemma disconnected_ok [adv_rules]:
  "run_state (disconnected env dst reason) s = (u, t) \<Longrightarrow> adv_ok s \<Longrightarrow> adv_ok t"
  unfolding disconnected_def by (auto simp: run_iff adv_ok_def split: option.splits)

lemma security_changed_ok [adv_rules]:
  "run_state (security_changed_cb err) s = (u, t) \<Longrightarrow> adv_ok s \<Longrightarrow> adv_ok t"
  unfolding security_changed_cb_def by (auto simp: run_iff adv_ok_def)

lemma cmd_delete_paired_ok [adv_rules]:
  "run_state (cmd_delete_paired env) s = (r, t) \<Longrightarrow> adv_ok s \<Longrightarrow> adv_ok t"
  unfolding cmd_delete_paired_def try_unpair_def adv_ok_def
  by (auto simp: run_iff adv_defs)

text \<open>The controller has ended advertising before \<open>connected\<close> runs.\<close>

lemma connected_ok [adv_rules]:
  "run_state (connected env dst err) s = (u, t) \<Longrightarrow>
     air (host_of (trace s)) = None \<Longrightarrow> \<not> doubled (host_of (trace s)) \<Longrightarrow> adv_ok t"
  unfolding connected_def adv_ok_def update_fe_data_def
  by (auto simp: run_iff split: option.splits)

section \<open>The advertising interface\<close>

text \<open>
  What the callers of the advertising functions (the shell commands, the RPC route, the
  reboot test) rely on: starting and stopping keep an invariant of the state.
\<close>

locale adv_ctl =
  fixes start :: "bool \<Rightarrow> int \<Rightarrow> ('s, int) state"
    and stop :: "('s, int) state"
    and inv :: "'s \<Rightarrow> bool"
  assumes start_keeps: "inv s \<Longrightarrow> run_state (start w n) s = (r, t) \<Longrightarrow> inv t"
    and stop_keeps: "inv s \<Longrightarrow> run_state stop s = (r, t) \<Longrightarrow> inv t"

interpretation ble_adv: adv_ctl "try_advertising_start env" "advertising_stop env"
    "adv_ok :: 'a ble_st_scheme \<Rightarrow> bool"
  by unfold_locales (auto intro: try_advertising_start_ok advertising_stop_ok)

section \<open>Initialisation\<close>

lemma ble_rc_init_uuid:
  "run_state (ble_rc_init env c) s = (r, t) \<Longrightarrow> r = 0 \<and>
     (case swap_addr (uuid_data s) 9 of None \<Rightarrow> mem_fault t | Some u \<Rightarrow> uuid_data t = u)"
  unfolding ble_rc_init_def fix_uuid_data_def set_public_addr_eq
  by (auto simp: run_iff split: option.splits)

lemma swap_addr_twice:
  assumes "length u = 16"
  shows "\<exists>v. swap_addr u 9 = Some v \<and> length v = 16 \<and> swap_addr v 9 = Some u"
proof -
  have u: "u = take 9 u @ take 6 (drop 9 u) @ drop 15 u"
    using take_take_drop [of 9 u 6] by simp
  have "swap_addr u 9 = Some (take 9 u @ rev (take 6 (drop 9 u)) @ drop 15 u)"
    using swap_addr_at [of 9 u] assms by simp
  moreover have "swap_addr (take 9 u @ rev (take 6 (drop 9 u)) @ drop 15 u) 9 = Some u"
    using swap_addr_rev [of "rev (take 6 (drop 9 u))" "take 9 u" "drop 15 u"] assms u by simp
  ultimately show ?thesis using assms by simp
qed

section \<open>Properties\<close>

text \<open>
  C11: Pairing mode advertises to the last bond of the identity in use: after
  \<open>advertising_start\<close> and the work it queues, the one packet that was started is directed
  to the last bond the host enumerated or, without a bond, the undirected pairing packet
  with its payload and the device name.
\<close>

theorem advertises_last_bond:
  assumes "run_state (do { _ \<leftarrow> advertising_start env; advertising_process env nm }) s = (u, t)"
    and "\<not> is_adv_running s" and "\<not> g_wakeup_adv_mode s"
    and "bonds = r_bonds (env (trace s) (Bt (BtForeachBond (bond_id (g_id s)))))"
    and "BT_ADDR_LE_NONE \<notin> set bonds"
  shows "\<exists>b q r. trace t = trace s @ [(Bt (BtForeachBond (bond_id (g_id s))), b), (Bt KWorkSubmitAdv, q),
      (Bt (if bonds = [] then BtLeAdvStart (with_identity (g_id s) ADV_CONN_FAST_1) ad (sd nm)
           else BtLeAdvStart (with_identity (g_id s) (ADV_CONN_DIR (last bonds))) [] []), r)] \<and>
    (is_adv_running t \<longleftrightarrow> r_rc r = 0)"
proof (cases "bonds = []")
  case True
  with assms show ?thesis
    unfolding advertising_process_def advertising_continue_def
    by (auto simp: run_iff adv_defs answers_def)
next
  case False
  then have "last bonds \<noteq> BT_ADDR_LE_NONE" using assms(5) last_in_set by fastforce
  with False assms(1-4) show ?thesis
    unfolding advertising_process_def advertising_continue_def
    by (auto simp: run_iff adv_defs answers_def)
qed

text \<open>
  C28: The delay a command schedules, for every time: it is the time it was given in milliseconds,
  wrapped to 32 bits, so it is exact for the times from -2147483 to 2147483 seconds and for
  no other time.
\<close>

theorem scheduled_delay:
  assumes "run_state (try_advertising_end env n) s = (r, t)" and "n \<noteq> 0"
  shows "\<exists>d x. last (trace t) = (Bt (KWorkRescheduleSwitch d), x) \<and>
    - (2 ^ 31) \<le> d \<and> d < 2 ^ 31 \<and> d mod 2 ^ 32 = n * 1000 mod 2 ^ 32 \<and>
    (d = n * 1000 \<longleftrightarrow> - 2147483 \<le> n \<and> n \<le> 2147483)"
proof -
  have range: "- (2 ^ 31) \<le> seconds_in_ms n" "seconds_in_ms n < 2 ^ 31"
    unfolding seconds_in_ms_def using sint_range_size [of "word_of_int (n * 1000) :: u32"]
    by (simp_all add: word_size)
  moreover have "seconds_in_ms n mod 2 ^ 32 = n * 1000 mod 2 ^ 32"
    unfolding seconds_in_ms_def sint_sbintrunc'
    by (simp add: signed_take_bit_eq_take_bit_shift take_bit_eq_mod mod_simps)
  moreover have "seconds_in_ms n = n * 1000" if "- 2147483 \<le> n" "n \<le> 2147483"
    unfolding seconds_in_ms_def sint_sbintrunc'
    by (rule signed_take_bit_int_eq_self) (use that in simp_all)
  moreover have "- 2147483 \<le> n \<and> n \<le> 2147483" if "seconds_in_ms n = n * 1000"
    using range that by simp
  moreover have "\<exists>x. last (trace t) = (Bt (KWorkRescheduleSwitch (seconds_in_ms n)), x)"
    using assms by (auto simp: try_advertising_end_def run_iff)
  ultimately show ?thesis by blast
qed

definition ble0 :: ble_st where
  "ble0 = \<lparr>trace = [], errno = 0, g_sock4 = - 1, g_websock4 = - 1, simulate_input_allow = 0,
     ctrl_point = 0, report_val = zero_report, g_btrc_st = BTRC_ST_DISCONNECTE,
     is_adv_running = False, g_wakeup_adv_mode = False, g_id = - 1,
     g_rc_last_paired_addr = BT_ADDR_LE_NONE, fe_data = fe_data_init,
     uuid_data = uuid_data_init, g_bt_ck_running = False, mem_fault = False\<rparr>"

theorem scheduled_delay_witness:
  "\<exists>d x. last (trace (final (try_advertising_end (sim_env []) 2147484) ble0)) = (Bt (KWorkRescheduleSwitch d), x) \<and>
    d mod 2 ^ 32 = 2147484000 \<and> d < 2 ^ 31"
  using scheduled_delay [OF run_result, of 2147484 "sim_env []" ble0] by auto

definition phone :: bt_addr where
  "phone = BtAddr 0 [6, 5, 4, 3, 2, 1]"

definition bonded :: env where
  "bonded = sim_over [(Bt (BtForeachBond 0), (reply_rc 0)\<lparr>r_bonds := [BtAddr 0 [9, 9, 9, 9, 9, 9], phone]\<rparr>)]
     (sim_env [])"

theorem advertises_last_bond_witness:
  "\<exists>b q r. trace (final (do { _ \<leftarrow> advertising_start bonded; advertising_process bonded [82] }) ble0) =
     [(Bt (BtForeachBond 0), b), (Bt KWorkSubmitAdv, q),
      (Bt (BtLeAdvStart (with_identity (- 1) (ADV_CONN_DIR phone)) [] []), r)]"
proof -
  let ?bs = "[BtAddr 0 [9, 9, 9, 9, 9, 9], phone]"
  have bs: "r_bonds (bonded (trace ble0) (Bt (BtForeachBond (bond_id (g_id ble0))))) = ?bs"
    by (simp add: bonded_def sim_over_def ble0_def bond_id_def BT_ID_DEFAULT_def)
  have "BT_ADDR_LE_NONE \<notin> set ?bs"
    by code_simp
  from advertises_last_bond [where env = bonded and nm = "[82]" and s = ble0, OF run_result _ _ bs [symmetric] this]
  obtain b q r where "trace (final (do { _ \<leftarrow> advertising_start bonded; advertising_process bonded [82] }) ble0) =
     trace ble0 @ [(Bt (BtForeachBond (bond_id (g_id ble0))), b), (Bt KWorkSubmitAdv, q),
      (Bt (BtLeAdvStart (with_identity (g_id ble0) (ADV_CONN_DIR phone)) [] []), r)]"
    by (auto simp: ble0_def)
  then show ?thesis by (auto simp: ble0_def bond_id_def BT_ID_DEFAULT_def)
qed

text \<open>
  A failed connection other than a directed-advertising timeout silences the remote:
  \<open>connected\<close> marks advertising as stopped and schedules nothing, so nothing is on the air
  and no work is pending that would change it.
\<close>

theorem failed_connection_silent:
  assumes "err \<noteq> 0" and "err \<noteq> BT_HCI_ERR_ADV_TIMEOUT"
    and "run_state (connected env dst err) s = (u, t)"
  shows "\<not> is_adv_running t \<and> trace t = trace s \<and> g_btrc_st t = g_btrc_st s"
  using assms unfolding connected_def update_fe_data_def
  by (auto simp: run_iff split: option.splits)

theorem failed_connection_silent_witness:
  "trace (final (connected (sim_env []) (Some phone) 0x3e) (ble0\<lparr>is_adv_running := True\<rparr>)) = []"
  using failed_connection_silent [OF _ _ run_result, of "0x3e" "sim_env []" "Some phone" "ble0\<lparr>is_adv_running := True\<rparr>"]
  by (simp add: BT_HCI_ERR_ADV_TIMEOUT_def ble0_def)

end
