(* ===== verification/BleSteps.thy ===== *)
theory BleSteps
  imports BleRc
begin

text \<open>
  The contexts of \<open>src/ble_rc.c\<close> interleaved. Callers of \<open>try_advertising_start\<close> (shell
  threads, the main loop, the reboot test) are numbered; each of them and the work queue
  give up the processor only in the 100 ms sleep, so a step is one function, or one half
  of a function with a sleep. The host's own moves (a connection, a disconnection, a
  change of security) run its callbacks.
\<close>

section \<open>Definitions\<close>

text \<open>
  The state, whether the work queue sleeps in \<open>adv_mode_switch_handler\<close>, and for each
  caller that sleeps in \<open>try_advertising_start\<close> the time it was given.
\<close>

record ble_sys =
  ble :: ble_st
  switching :: bool
  starting :: "nat \<Rightarrow> int option"

datatype ble_label =
    RunAdvWork
  | SwitchBegin
  | SwitchEnd
  | StartBegin nat bool int
  | StartEnd nat
  | StopCall
  | UnpairCall
  | Connects "bt_addr option" byte
  | Disconnects "bt_addr option" byte
  | Secures int

text \<open>The host's move, as an event of the trace.\<close>

definition note_host :: "bt_call \<Rightarrow> 'a ble_st_scheme \<Rightarrow> 'a ble_st_scheme" where
  "note_host e s = s\<lparr>trace := trace s @ [(Bt e, reply_rc 0)]\<rparr>"

definition slept :: "'a ble_st_scheme \<Rightarrow> 'a ble_st_scheme" where
  "slept s = s\<lparr>trace := trace s @ [(Kern (KSleepMs 100), reply_rc 0)]\<rparr>"

definition host :: "ble_sys \<Rightarrow> host" where
  "host y = host_of (trace (ble y))"

definition connectable :: "adv_preset option \<Rightarrow> bool" where
  "connectable a \<longleftrightarrow> (case a of None \<Rightarrow> False | Some p \<Rightarrow> p \<noteq> ADV_NCONN_FAST)"

text \<open>One step; \<open>None\<close> where the label is not enabled.\<close>

fun ble_act :: "env \<Rightarrow> byte list \<Rightarrow> ble_label \<Rightarrow> ble_sys \<Rightarrow> ble_sys option" where
  "ble_act env nm RunAdvWork y =
     (if adv_queued (host y) \<and> \<not> switching y
      then Some (y\<lparr>ble := final (advertising_process env nm) (note_host HostRunAdvWork (ble y))\<rparr>)
      else None)"
| "ble_act env nm SwitchBegin y =
     (if switch_set (host y) \<and> \<not> switching y
      then Some (y\<lparr>ble := final (switch_begin env) (note_host HostRunSwitchWork (ble y)), switching := True\<rparr>)
      else None)"
| "ble_act env nm SwitchEnd y =
     (if switching y
      then Some (y\<lparr>ble := final (switch_end env) (slept (ble y)), switching := False\<rparr>)
      else None)"
| "ble_act env nm (StartBegin i w n) y =
     (if starting y i = None
      then Some (y\<lparr>ble := final (try_advertising_begin env w) (ble y),
                   starting := (starting y)(i \<mapsto> n)\<rparr>)
      else None)"
| "ble_act env nm (StartEnd i) y =
     (case starting y i of
        None \<Rightarrow> None
      | Some n \<Rightarrow> Some (y\<lparr>ble := final (try_advertising_end env n) (slept (ble y)),
                        starting := (starting y)(i := None)\<rparr>))"
| "ble_act env nm StopCall y = Some (y\<lparr>ble := final (advertising_stop env) (ble y)\<rparr>)"
| "ble_act env nm UnpairCall y = Some (y\<lparr>ble := final (cmd_delete_paired env) (ble y)\<rparr>)"
| "ble_act env nm (Connects dst err) y =
     (if connectable (air (host y))
      then Some (y\<lparr>ble := final (connected env dst err) (note_host HostAdvEnded (ble y))\<rparr>)
      else None)"
| "ble_act env nm (Disconnects dst reason) y =
     Some (y\<lparr>ble := final (disconnected env dst reason) (ble y)\<rparr>)"
| "ble_act env nm (Secures err) y = Some (y\<lparr>ble := final (security_changed_cb err) (ble y)\<rparr>)"

text \<open>The step relation and what it reaches from the state after boot.\<close>

inductive ble_step :: "env \<Rightarrow> byte list \<Rightarrow> ble_sys \<Rightarrow> ble_label \<Rightarrow> ble_sys \<Rightarrow> bool"
  for env nm where
  step: "ble_act env nm l y = Some z \<Longrightarrow> ble_step env nm y l z"

inductive_cases ble_stepE: "ble_step env nm y l z"

inductive_simps ble_step_iff: "ble_step env nm y l z"

inductive ble_reach :: "env \<Rightarrow> byte list \<Rightarrow> ble_sys \<Rightarrow> ble_label list \<Rightarrow> ble_sys \<Rightarrow> bool"
  for env nm where
  refl: "ble_reach env nm y [] y"
| more: "ble_reach env nm x ls y \<Longrightarrow> ble_step env nm y l z \<Longrightarrow> ble_reach env nm x (ls @ [l]) z"

definition sys0 :: ble_sys where
  "sys0 = \<lparr>ble = ble0, switching = False, starting = Map.empty\<rparr>"

text \<open>Running a list of labels, for concrete executions.\<close>

fun ble_run :: "env \<Rightarrow> byte list \<Rightarrow> ble_label list \<Rightarrow> ble_sys \<Rightarrow> ble_sys option" where
  "ble_run env nm [] y = Some y"
| "ble_run env nm (l # ls) y = (case ble_act env nm l y of None \<Rightarrow> None | Some z \<Rightarrow> ble_run env nm ls z)"

lemma ble_reach_trans:
  "ble_reach env nm y ls z \<Longrightarrow> ble_reach env nm x ks y \<Longrightarrow> ble_reach env nm x (ks @ ls) z"
proof (induction rule: ble_reach.induct)
  case (refl y)
  then show ?case by simp
next
  case (more y ls z l w)
  then have "ble_reach env nm x (ks @ ls) z" by simp
  from ble_reach.more [OF this more.hyps(2)] show ?case by simp
qed

lemma ble_run_reach: "ble_run env nm ls y = Some z \<Longrightarrow> ble_reach env nm y ls z"
proof (induction ls arbitrary: y)
  case Nil
  then show ?case by (auto intro: ble_reach.refl)
next
  case (Cons l ls)
  then obtain w where "ble_act env nm l y = Some w" and w: "ble_run env nm ls w = Some z"
    by (auto split: option.splits)
  have "ble_reach env nm y [] y" by (rule ble_reach.refl)
  from ble_reach.more [OF this ble_step.step] \<open>ble_act env nm l y = Some w\<close>
  have "ble_reach env nm y ([] @ [l]) w" by blast
  with Cons.IH [OF w] show ?case
    using ble_reach_trans by fastforce
qed

section \<open>The advertising invariant\<close>

lemma adv_ok_note [simp]:
  "adv_ok (note_host HostRunAdvWork s) \<longleftrightarrow> adv_ok s"
  "adv_ok (note_host HostRunSwitchWork s) \<longleftrightarrow> adv_ok s"
  "adv_ok (slept s) \<longleftrightarrow> adv_ok s"
  by (simp_all add: adv_ok_def note_host_def slept_def)

lemma ended [simp]:
  "air (host_of (trace (note_host HostAdvEnded s))) = None"
  "doubled (host_of (trace (note_host HostAdvEnded s))) \<longleftrightarrow> doubled (host_of (trace s))"
  by (simp_all add: note_host_def)

lemma adv_ok_not_doubled: "adv_ok s \<Longrightarrow> \<not> doubled (host_of (trace s))"
  by (simp add: adv_ok_def)

lemma ble_step_ok: "ble_step env nm y l z \<Longrightarrow> adv_ok (ble y) \<Longrightarrow> adv_ok (ble z)"
  unfolding ble_step_iff
  by (cases l)
    (auto split: if_splits option.splits simp: advertising_process_def
      adv_rules [OF run_result] adv_ok_not_doubled)

lemma ble_reach_ok: "ble_reach env nm y ls z \<Longrightarrow> adv_ok (ble y) \<Longrightarrow> adv_ok (ble z)"
  by (induction rule: ble_reach.induct) (auto intro: ble_step_ok)

lemma sys0_ok: "adv_ok (ble sys0)"
  by (simp add: sys0_def adv_ok_def ble0_def host0_def)

section \<open>The advertising mode\<close>

text \<open>
  The code goes on where a stop is refused, with the old packet on the air. Whether that is
  so is in the trace: a stop was refused since the packet on the air was started.
\<close>

fun refused_after :: "bool \<Rightarrow> event \<Rightarrow> bool" where
  "refused_after b (Bt BtLeAdvStop, r) = (r_rc r \<noteq> 0)"
| "refused_after b (Bt (BtLeAdvStart p a d), r) = (b \<and> r_rc r \<noteq> 0)"
| "refused_after b (Bt HostAdvEnded, r) = False"
| "refused_after b _ = b"

definition stop_refused :: "event list \<Rightarrow> bool" where
  "stop_refused tr = foldl refused_after False tr"

lemma stop_refused_append [simp]: "stop_refused (tr @ es) = foldl refused_after (stop_refused tr) es"
  by (simp add: stop_refused_def)

lemma stop_refused_Nil [simp]: "\<not> stop_refused []"
  by (simp add: stop_refused_def)

text \<open>
  Unless a stop was refused, what is on the air is of the mode last asked for, and nothing
  is on the air while the mode switch sleeps.
\<close>

definition shows_mode :: "bool \<Rightarrow> 'a ble_st_scheme \<Rightarrow> bool" where
  "shows_mode w s \<longleftrightarrow> (\<forall>p. air (host_of (trace s)) = Some p \<longrightarrow> \<not> stop_refused (trace s) \<longrightarrow>
     (p = ADV_NCONN_FAST \<longleftrightarrow> w))"

definition silent :: "'a ble_st_scheme \<Rightarrow> bool" where
  "silent s \<longleftrightarrow> air (host_of (trace s)) = None \<or> stop_refused (trace s)"

definition mode_ok :: "ble_sys \<Rightarrow> bool" where
  "mode_ok y \<longleftrightarrow> shows_mode (g_wakeup_adv_mode (ble y)) (ble y) \<and> (switching y \<longrightarrow> silent (ble y))"

lemma silent_shows: "silent s \<Longrightarrow> shows_mode w s"
  by (auto simp: silent_def shows_mode_def)

text \<open>What each function does to the air and the mode.\<close>

lemma advertising_continue_mode:
  "run_state (advertising_continue env nm) s = (u, t) \<Longrightarrow> adv_ok s \<Longrightarrow> shows_mode (g_wakeup_adv_mode s) s \<Longrightarrow>
     shows_mode (g_wakeup_adv_mode t) t"
  unfolding advertising_continue_def with_identity_def adv_ok_def shows_mode_def
  by (auto simp: run_iff)

lemma stopping_mode:
  "run_state (advertising_stop env) s = (r, t) \<Longrightarrow> adv_ok s \<Longrightarrow> silent t"
  "run_state (try_advertising_begin env w) s = (u, t) \<Longrightarrow> adv_ok s \<Longrightarrow> silent t"
  "run_state (switch_begin env) s = (u, t) \<Longrightarrow> adv_ok s \<Longrightarrow> silent t"
  "run_state (cmd_delete_paired env) s = (r, t) \<Longrightarrow> adv_ok s \<Longrightarrow> silent t"
  unfolding adv_ok_def silent_def cmd_delete_paired_def try_unpair_def
  by (auto simp: run_iff adv_defs)

text \<open>The other functions leave the air as it is, and all but the end of the switch the mode.\<close>

definition same_air :: "'a ble_st_scheme \<Rightarrow> 'a ble_st_scheme \<Rightarrow> bool" where
  "same_air s t \<longleftrightarrow> air (host_of (trace t)) = air (host_of (trace s)) \<and> stop_refused (trace t) = stop_refused (trace s)"

lemma same_air_keeps: "same_air s t \<Longrightarrow> silent t = silent s \<and> shows_mode w t = shows_mode w s"
  by (simp add: same_air_def silent_def shows_mode_def)

lemma leaving_mode:
  "run_state (try_advertising_end env n) s = (r, t) \<Longrightarrow> same_air s t \<and> g_wakeup_adv_mode t = g_wakeup_adv_mode s"
  "run_state (connected env dst err) s = (u, t) \<Longrightarrow> same_air s t \<and> g_wakeup_adv_mode t = g_wakeup_adv_mode s"
  "run_state (disconnected env dst reason) s = (u, t) \<Longrightarrow> same_air s t \<and> g_wakeup_adv_mode t = g_wakeup_adv_mode s"
  "run_state (security_changed_cb e) s = (u, t) \<Longrightarrow> same_air s t \<and> g_wakeup_adv_mode t = g_wakeup_adv_mode s"
  "run_state (switch_end env) s = (u, t) \<Longrightarrow> same_air s t"
  unfolding connected_def disconnected_def security_changed_cb_def same_air_def update_fe_data_def
  by (auto simp: run_iff adv_defs split: option.splits)

lemma noted [simp]:
  "same_air s (note_host HostRunAdvWork s)" "same_air s (note_host HostRunSwitchWork s)" "same_air s (slept s)"
  "silent (note_host HostAdvEnded s)"
  "g_wakeup_adv_mode (note_host e s) = g_wakeup_adv_mode s" "g_wakeup_adv_mode (slept s) = g_wakeup_adv_mode s"
  by (simp_all add: same_air_def silent_def note_host_def slept_def)

lemma ble_step_mode:
  assumes "ble_step env nm y l z" and "mode_ok y" and "adv_ok (ble y)"
  shows "mode_ok z"
proof (cases l)
  case RunAdvWork
  moreover have "shows_mode (g_wakeup_adv_mode (ble y)) (note_host HostRunAdvWork (ble y))"
    using assms(2) same_air_keeps [OF noted(1) [of "ble y"]] by (simp add: mode_ok_def)
  ultimately show ?thesis
    using assms advertising_continue_mode [OF run_result, of "note_host HostRunAdvWork (ble y)" env nm]
    by (auto simp: ble_step_iff mode_ok_def advertising_process_def split: if_splits)
next
  case SwitchBegin
  then show ?thesis
    using assms stopping_mode(3) [OF run_result, of "note_host HostRunSwitchWork (ble y)" env]
    by (auto simp: ble_step_iff mode_ok_def silent_shows split: if_splits)
next
  case SwitchEnd
  have "silent (final (switch_end env) (slept (ble y)))" if "silent (ble y)"
    using that same_air_keeps [OF leaving_mode(5) [OF run_result]] same_air_keeps [OF noted(3)] by blast
  with SwitchEnd show ?thesis
    using assms by (auto simp: ble_step_iff mode_ok_def silent_shows split: if_splits)
next
  case (StartBegin i w n)
  then show ?thesis
    using assms stopping_mode(2) [OF run_result, of "ble y" env w]
    by (auto simp: ble_step_iff mode_ok_def silent_shows split: if_splits)
next
  case (StartEnd i)
  then obtain n where "ble z = final (try_advertising_end env n) (slept (ble y))" "switching z = switching y"
    using assms(1) by (auto simp: ble_step_iff split: option.splits)
  with assms(2) leaving_mode(1) [OF run_result, where env = env and n = n and s = "slept (ble y)"] show ?thesis
    using same_air_keeps [OF noted(3), of "ble y"] by (auto simp: mode_ok_def dest: same_air_keeps)
next
  case StopCall
  then show ?thesis
    using assms stopping_mode(1) [OF run_result, of "ble y" env]
    by (auto simp: ble_step_iff mode_ok_def silent_shows)
next
  case UnpairCall
  then show ?thesis
    using assms stopping_mode(4) [OF run_result, of "ble y" env]
    by (auto simp: ble_step_iff mode_ok_def silent_shows)
next
  case (Connects dst err)
  have "silent (final (connected env dst err) (note_host HostAdvEnded (ble y)))"
    using leaving_mode(2) [OF run_result, where env = env and dst = dst and err = err] same_air_keeps noted(4) by blast
  with Connects assms show ?thesis
    by (auto simp: ble_step_iff mode_ok_def silent_shows split: if_splits)
next
  case (Disconnects dst reason)
  with assms leaving_mode(3) [OF run_result, where env = env and dst = dst and reason = reason and s = "ble y"] show ?thesis
    by (auto simp: ble_step_iff mode_ok_def dest: same_air_keeps)
next
  case (Secures e)
  with assms leaving_mode(4) [OF run_result, where e = e and s = "ble y"] show ?thesis
    by (auto simp: ble_step_iff mode_ok_def dest: same_air_keeps)
qed

lemma ble_reach_mode: "ble_reach env nm y ls z \<Longrightarrow> mode_ok y \<Longrightarrow> adv_ok (ble y) \<Longrightarrow> mode_ok z"
  by (induction rule: ble_reach.induct) (auto intro: ble_step_mode ble_reach_ok)

lemma sys0_mode: "mode_ok sys0"
  by (simp add: sys0_def mode_ok_def shows_mode_def ble0_def host0_def)

section \<open>Whom the wake-up packet addresses\<close>

text \<open>
  The first three bytes of the address of the host that connected last, as the steps show it,
  and the payload that is on the air, as the trace shows it.
\<close>

definition last_host :: "ble_label list \<Rightarrow> byte list" where
  "last_host ls = foldl (\<lambda>fe l. case l of Connects (Some a) err \<Rightarrow> take 3 (addr_val a) | _ \<Rightarrow> fe) fe_data_init ls"

fun six_byte_host :: "ble_label \<Rightarrow> bool" where
  "six_byte_host (Connects (Some a) err) = (length (addr_val a) = 6)"
| "six_byte_host _ = True"

fun payload_after :: "(byte \<times> byte list) list option \<Rightarrow> event \<Rightarrow> (byte \<times> byte list) list option" where
  "payload_after x (Bt (BtLeAdvStart p a d), r) = (if r_rc r = 0 then Some a else x)"
| "payload_after x (Bt BtLeAdvStop, r) = (if r_rc r = 0 then None else x)"
| "payload_after x (Bt HostAdvEnded, r) = None"
| "payload_after x _ = x"

definition payload_of :: "event list \<Rightarrow> (byte \<times> byte list) list option" where
  "payload_of tr = foldl payload_after None tr"

lemma payload_of_append [simp]: "payload_of (tr @ es) = foldl payload_after (payload_of tr) es"
  by (simp add: payload_of_def)

text \<open>
  The wake-up packet on the air carries the data; no operation but \<open>connected\<close> changes it, and
  that one runs with nothing on the air.
\<close>

definition wakes :: "byte list \<Rightarrow> 'a ble_st_scheme \<Rightarrow> bool" where
  "wakes fe s \<longleftrightarrow> adv_ok s \<and> \<not> mem_fault s \<and> fe_data s = fe \<and> length fe = 3 \<and>
     (air (host_of (trace s)) = Some ADV_NCONN_FAST \<longrightarrow> payload_of (trace s) = Some (ad_wakeup fe))"

definition keeps_wake :: "'a ble_st_scheme \<Rightarrow> 'a ble_st_scheme \<Rightarrow> bool" where
  "keeps_wake s t \<longleftrightarrow> fe_data t = fe_data s \<and> mem_fault t = mem_fault s \<and>
     (air (host_of (trace t)) = None \<or> air (host_of (trace t)) = air (host_of (trace s)) \<and>
        payload_of (trace t) = payload_of (trace s))"

lemma keeps_wake_runs:
  "run_state (switch_begin env) s = (u, t) \<Longrightarrow> keeps_wake s t"
  "run_state (switch_end env) s = (u, t) \<Longrightarrow> keeps_wake s t"
  "run_state (try_advertising_begin env w) s = (u, t) \<Longrightarrow> keeps_wake s t"
  "run_state (try_advertising_end env n) s = (r, t) \<Longrightarrow> keeps_wake s t"
  "run_state (advertising_stop env) s = (r, t) \<Longrightarrow> keeps_wake s t"
  "run_state (cmd_delete_paired env) s = (r, t) \<Longrightarrow> keeps_wake s t"
  "run_state (disconnected env dst reason) s = (u, t) \<Longrightarrow> keeps_wake s t"
  "run_state (security_changed_cb e) s = (u, t) \<Longrightarrow> keeps_wake s t"
  unfolding keeps_wake_def cmd_delete_paired_def try_unpair_def disconnected_def security_changed_cb_def
  by (auto simp: run_iff adv_defs split: option.splits)

lemma wakes_keeps: "wakes fe s \<Longrightarrow> adv_ok t \<Longrightarrow> keeps_wake s t \<Longrightarrow> wakes fe t"
  by (auto simp: wakes_def keeps_wake_def)

lemma continue_wakes:
  assumes "run_state (advertising_process env nm) s = (u, t)" and "wakes fe s"
  shows "wakes fe t"
proof -
  have "adv_ok t" using advertising_continue_ok assms by (auto simp: wakes_def advertising_process_def)
  moreover have "fe_data t = fe_data s \<and> mem_fault t = mem_fault s"
    using assms(1) by (auto simp: advertising_process_def advertising_continue_def run_iff)
  moreover have "payload_of (trace t) = Some (ad_wakeup fe)" if "air (host_of (trace t)) = Some ADV_NCONN_FAST"
    using assms that unfolding advertising_process_def advertising_continue_def with_identity_def
    by (auto simp: run_iff wakes_def adv_ok_def split: if_splits)
  ultimately show ?thesis using assms(2) by (simp add: wakes_def)
qed

lemma wakes_runs:
  "wakes fe s \<Longrightarrow> wakes fe (final (advertising_process env nm) s)"
  "wakes fe s \<Longrightarrow> wakes fe (final (switch_begin env) s)"
  "wakes fe s \<Longrightarrow> wakes fe (final (switch_end env) s)"
  "wakes fe s \<Longrightarrow> wakes fe (final (try_advertising_begin env w) s)"
  "wakes fe s \<Longrightarrow> wakes fe (final (try_advertising_end env n) s)"
  "wakes fe s \<Longrightarrow> wakes fe (final (advertising_stop env) s)"
  "wakes fe s \<Longrightarrow> wakes fe (final (cmd_delete_paired env) s)"
  "wakes fe s \<Longrightarrow> wakes fe (final (disconnected env dst reason) s)"
  "wakes fe s \<Longrightarrow> wakes fe (final (security_changed_cb e) s)"
  by (rule continue_wakes [OF run_result]; simp)
    (rule wakes_keeps, assumption, rule adv_rules [OF run_result], simp add: wakes_def,
     rule keeps_wake_runs [OF run_result])+

lemma update_fe_data_in_bounds:
  assumes "length (fe_data s) = 3" and "length (addr_val a) = 6"
  shows "update_fe_data (Some a) s = s\<lparr>fe_data := take 3 (addr_val a)\<rparr>"
proof -
  obtain b0 b1 b2 b3 b4 b5 where "addr_val a = [b0, b1, b2, b3, b4, b5]" using six_bytes [OF assms(2)] .
  moreover obtain f0 f1 f2 where "fe_data s = [f0, f1, f2]"
    using assms(1) by (auto simp: eval_nat_numeral length_Suc_conv)
  ultimately show ?thesis by (simp add: update_fe_data_def load_def store_def)
qed

lemma connected_wakes:
  assumes "run_state (connected env dst err) (note_host HostAdvEnded s) = (u, t)" and "wakes fe s"
    and "six_byte_host (Connects dst err)"
  shows "wakes (case dst of None \<Rightarrow> fe | Some a \<Rightarrow> take 3 (addr_val a)) t"
proof -
  have "adv_ok t"
    using connected_ok [OF assms(1)] assms(2) by (simp add: wakes_def adv_ok_not_doubled)
  moreover have "air (host_of (trace t)) = None"
    using leaving_mode(2) [OF assms(1)] by (simp add: same_air_def note_host_def)
  moreover have "\<not> mem_fault t \<and> fe_data t = (case dst of None \<Rightarrow> fe | Some a \<Rightarrow> take 3 (addr_val a))"
  proof (cases dst)
    case None
    with assms(1,2) show ?thesis
      by (auto simp: connected_def run_iff wakes_def update_fe_data_def note_host_def split: if_splits)
  next
    case (Some a)
    then have l: "length (addr_val a) = 6" using assms(3) by simp
    have "length (fe_data s) = 3" using assms(2) by (simp add: wakes_def)
    with assms(1,2) Some show ?thesis
      by (auto simp: connected_def run_iff wakes_def note_host_def update_fe_data_in_bounds [OF _ l] split: if_splits)
  qed
  ultimately show ?thesis
    using assms(2,3) by (auto simp: wakes_def split: option.splits)
qed

lemma wakes_noted [simp]:
  "wakes fe (slept s) \<longleftrightarrow> wakes fe s"
  "wakes fe (note_host HostRunAdvWork s) \<longleftrightarrow> wakes fe s"
  "wakes fe (note_host HostRunSwitchWork s) \<longleftrightarrow> wakes fe s"
  by (simp_all add: wakes_def adv_ok_def slept_def note_host_def)

lemma ble_step_wakes:
  assumes "ble_step env nm y l z" and "wakes fe (ble y)" and "six_byte_host l"
  shows "wakes (case l of Connects (Some a) err \<Rightarrow> take 3 (addr_val a) | _ \<Rightarrow> fe) (ble z)"
proof (cases l)
  case (Connects dst err)
  then have "ble z = final (connected env dst err) (note_host HostAdvEnded (ble y))"
    using assms(1) by (auto simp: ble_step_iff split: if_splits)
  with connected_wakes [OF run_result, where env = env and dst = dst and err = err and s = "ble y" and fe = fe] assms(2,3) Connects show ?thesis
    by (simp split: option.splits)
qed (use assms(1,2) in \<open>auto simp: ble_step_iff wakes_runs split: if_splits option.splits\<close>)

lemma last_host_simps [simp]:
  "last_host [] = fe_data_init"
  "last_host (ls @ [l]) = (case l of Connects (Some a) err \<Rightarrow> take 3 (addr_val a) | _ \<Rightarrow> last_host ls)"
  by (simp_all add: last_host_def split: ble_label.split option.split)

lemma ble_reach_wakes:
  assumes "ble_reach env nm sys0 ls y" and "list_all six_byte_host ls"
  shows "wakes (last_host ls) (ble y)"
proof -
  have "wakes fe_data_init (ble sys0)"
    using sys0_ok by (simp add: wakes_def sys0_def ble0_def fe_data_init_def host0_def)
  with assms show ?thesis
  proof (induction sys0 ls y rule: ble_reach.induct)
    case refl
    then show ?case by simp
  next
    case (more ls y l z)
    then have "wakes (last_host ls) (ble y)" "six_byte_host l" by simp_all
    from ble_step_wakes [OF more.hyps(3) this] show ?case by (simp only: last_host_simps)
  qed
qed

section \<open>Properties\<close>

text \<open>
  C3: In every reachable state of the interleaved system, whatever the host answers, the flag
  \<open>is_adv_running\<close> says whether a packet is on the air, and advertising was never started
  while it was on.
\<close>

theorem never_started_twice:
  assumes "ble_reach env nm sys0 ls y"
  shows "(is_adv_running (ble y) \<longleftrightarrow> air (host y) \<noteq> None) \<and> \<not> doubled (host y)"
  using ble_reach_ok [OF assms sys0_ok] by (simp add: adv_ok_def host_def)

text \<open>A wake-up command and the work it queues.\<close>

definition wakeup_run :: "ble_label list" where
  "wakeup_run = [StartBegin 0 True 5, StartEnd 0, RunAdvWork]"

abbreviation wakeup_sys :: "ble_sys option" where
  "wakeup_sys \<equiv> ble_run (sim_env []) [82] wakeup_run sys0"

lemma wakeup_reached: "wakeup_sys \<noteq> None" "ble_reach (sim_env []) [82] sys0 wakeup_run (the wakeup_sys)"
proof -
  show *: "wakeup_sys \<noteq> None" by code_simp
  then obtain z where "wakeup_sys = Some z" by blast
  with ble_run_reach [OF this] show "ble_reach (sim_env []) [82] sys0 wakeup_run (the wakeup_sys)"
    by simp
qed

theorem never_started_twice_witness:
  "air (host (the wakeup_sys)) = Some ADV_NCONN_FAST \<and> is_adv_running (ble (the wakeup_sys))"
proof -
  have "air (host (the wakeup_sys)) = Some ADV_NCONN_FAST" by code_simp
  with never_started_twice [OF wakeup_reached(2)] show ?thesis by simp
qed

text \<open>
  C7: The packet on the air is of the mode that was last set: the wake-up packet exactly while
  \<open>g_wakeup_adv_mode\<close> holds, a connectable one otherwise. This holds on every platform, for
  every interleaving of callers, work queue and host, as long as the host has not refused to
  stop the packet on the air (the code ignores the refusal and sets the mode all the same).
\<close>

theorem air_follows_mode:
  assumes "ble_reach env nm sys0 ls y" and "air (host y) = Some p" and "\<not> stop_refused (trace (ble y))"
  shows "p = ADV_NCONN_FAST \<longleftrightarrow> g_wakeup_adv_mode (ble y)"
  using ble_reach_mode [OF assms(1) sys0_mode sys0_ok] assms(2,3) by (simp add: mode_ok_def shows_mode_def host_def)

theorem air_follows_mode_witness: "g_wakeup_adv_mode (ble (the wakeup_sys))"
proof -
  have "air (host (the wakeup_sys)) = Some ADV_NCONN_FAST" by code_simp
  moreover have "\<not> stop_refused (trace (ble (the wakeup_sys)))" by code_simp
  ultimately show ?thesis using air_follows_mode [OF wakeup_reached(2)] by blast
qed


text \<open>A host connects and goes, and is woken up.\<close>

definition return_run :: "ble_label list" where
  "return_run = [StartBegin 0 False 5, StartEnd 0, RunAdvWork, Connects (Some phone) 0,
     StartBegin 0 True 5, StartEnd 0, RunAdvWork]"

abbreviation return_sys :: "ble_sys option" where
  "return_sys \<equiv> ble_run (sim_env []) [82] return_run sys0"


section \<open>A wake-up that gets lost\<close>

fun is_wakeup_start :: "event \<Rightarrow> bool" where
  "is_wakeup_start (Bt (BtLeAdvStart p a d), r) = (preset p = ADV_NCONN_FAST)"
| "is_wakeup_start _ = False"

definition wakeup_starts :: "event list \<Rightarrow> nat" where
  "wakeup_starts tr = length (filter is_wakeup_start tr)"

lemma wakeup_starts_append [simp]: "wakeup_starts (xs @ ys) = wakeup_starts xs + wakeup_starts ys"
  by (simp add: wakeup_starts_def)

lemma wakeup_starts_simps [simp]:
  "wakeup_starts [] = 0"
  "wakeup_starts (e # es) = (if is_wakeup_start e then Suc (wakeup_starts es) else wakeup_starts es)"
  by (simp_all add: wakeup_starts_def)

fun start_label :: "ble_label \<Rightarrow> bool" where
  "start_label (StartBegin i w n) = True"
| "start_label _ = False"

text \<open>
  With the mode cleared, or about to be by the second half of the switch, nothing but a new
  command starts a wake-up packet.
\<close>

definition lost :: "nat \<Rightarrow> ble_sys \<Rightarrow> bool" where
  "lost n y \<longleftrightarrow> wakeup_starts (trace (ble y)) = n \<and> (switching y \<or> \<not> g_wakeup_adv_mode (ble y))"

lemma wakeup_starts_runs:
  "run_state (advertising_process env nm) s = (u, t) \<Longrightarrow> \<not> g_wakeup_adv_mode s \<Longrightarrow>
     wakeup_starts (trace t) = wakeup_starts (trace s) \<and> \<not> g_wakeup_adv_mode t"
  "run_state (switch_begin env) s = (u, t) \<Longrightarrow> wakeup_starts (trace t) = wakeup_starts (trace s)"
  "run_state (switch_end env) s = (u, t) \<Longrightarrow>
     wakeup_starts (trace t) = wakeup_starts (trace s) \<and> \<not> g_wakeup_adv_mode t"
  "run_state (try_advertising_begin env w) s = (u, t) \<Longrightarrow> wakeup_starts (trace t) = wakeup_starts (trace s)"
  "run_state (try_advertising_end env n) s = (r, t) \<Longrightarrow>
     wakeup_starts (trace t) = wakeup_starts (trace s) \<and> g_wakeup_adv_mode t = g_wakeup_adv_mode s"
  "run_state (advertising_stop env) s = (r, t) \<Longrightarrow>
     wakeup_starts (trace t) = wakeup_starts (trace s) \<and> g_wakeup_adv_mode t = g_wakeup_adv_mode s"
  "run_state (cmd_delete_paired env) s = (r, t) \<Longrightarrow>
     wakeup_starts (trace t) = wakeup_starts (trace s) \<and> g_wakeup_adv_mode t = g_wakeup_adv_mode s"
  "run_state (connected env dst err) s = (u, t) \<Longrightarrow>
     wakeup_starts (trace t) = wakeup_starts (trace s) \<and> g_wakeup_adv_mode t = g_wakeup_adv_mode s"
  "run_state (disconnected env dst reason) s = (u, t) \<Longrightarrow>
     wakeup_starts (trace t) = wakeup_starts (trace s) \<and> g_wakeup_adv_mode t = g_wakeup_adv_mode s"
  "run_state (security_changed_cb e) s = (u, t) \<Longrightarrow>
     wakeup_starts (trace t) = wakeup_starts (trace s) \<and> g_wakeup_adv_mode t = g_wakeup_adv_mode s"
  unfolding advertising_process_def advertising_continue_def with_identity_def
    cmd_delete_paired_def try_unpair_def connected_def disconnected_def security_changed_cb_def update_fe_data_def
  by (auto simp: run_iff adv_defs split: option.splits)

lemma wakeup_starts_noted [simp]:
  "wakeup_starts (trace (slept s)) = wakeup_starts (trace s)"
  "wakeup_starts (trace (note_host HostRunAdvWork s)) = wakeup_starts (trace s)"
  "wakeup_starts (trace (note_host HostRunSwitchWork s)) = wakeup_starts (trace s)"
  "wakeup_starts (trace (note_host HostAdvEnded s)) = wakeup_starts (trace s)"
  by (simp_all add: slept_def note_host_def)

lemma lost_step: "ble_step env nm y l z \<Longrightarrow> lost n y \<Longrightarrow> \<not> start_label l \<or> switching y \<Longrightarrow> lost n z"
  unfolding ble_step_iff lost_def
  by (cases l) (auto simp: wakeup_starts_runs [OF run_result] split: if_splits option.splits)

lemma lost_reach:
  "ble_reach env nm y ks z \<Longrightarrow> lost n y \<Longrightarrow> list_all (\<lambda>l. \<not> start_label l) ks \<Longrightarrow> lost n z"
  by (induction rule: ble_reach.induct) (auto intro: lost_step)

text \<open>
  C25: A wake-up command that meets the mode switch in its sleep is lost, on every platform and
  under every schedule: cancelling comes too late, the second half of the switch clears the
  mode that the command has set, and until another start command is given no wake-up packet
  is started, whatever callers, work queue and host do.
\<close>

theorem wakeup_can_be_lost:
  assumes "switching y" and "ble_step env nm y (StartBegin i True n) x"
    and "ble_reach env nm x ks z" and "list_all (\<lambda>l. \<not> start_label l) ks"
  shows "wakeup_starts (trace (ble z)) = wakeup_starts (trace (ble y))"
proof -
  have "lost (wakeup_starts (trace (ble y))) y" using assms(1) by (simp add: lost_def)
  from lost_step [OF assms(2) this] assms(1) have "lost (wakeup_starts (trace (ble y))) x" by simp
  from lost_reach [OF assms(3) this assms(4)] show ?thesis by (simp add: lost_def)
qed

text \<open>It happens: the switch after a pairing command, and a wake-up command in its sleep.\<close>

definition switch_run :: "ble_label list" where
  "switch_run = [StartBegin 0 False 5, StartEnd 0, RunAdvWork, SwitchBegin]"

definition lost_run :: "ble_label list" where
  "lost_run = [SwitchEnd, RunAdvWork, StartEnd 0]"

definition switch_sys :: ble_sys where
  "switch_sys = the (ble_run (sim_env []) [82] switch_run sys0)"

definition command_sys :: ble_sys where
  "command_sys = the (ble_act (sim_env []) [82] (StartBegin 0 True 10) switch_sys)"

definition lost_sys :: ble_sys where
  "lost_sys = the (ble_run (sim_env []) [82] lost_run command_sys)"

theorem wakeup_can_be_lost_witness:
  "wakeup_starts (trace (ble lost_sys)) = 0 \<and> starting lost_sys 0 = None \<and> air (host lost_sys) = Some ADV_CONN_FAST_1"
proof -
  have "ble_act (sim_env []) [82] (StartBegin 0 True 10) switch_sys \<noteq> None"
    "ble_run (sim_env []) [82] lost_run command_sys \<noteq> None" by code_simp+
  then have steps: "ble_step (sim_env []) [82] switch_sys (StartBegin 0 True 10) command_sys"
    "ble_reach (sim_env []) [82] command_sys lost_run lost_sys"
    unfolding command_sys_def lost_sys_def by (auto intro: ble_step.step ble_run_reach)
  have "switching switch_sys" "list_all (\<lambda>l. \<not> start_label l) lost_run"
    "wakeup_starts (trace (ble switch_sys)) = 0" by code_simp+
  moreover have "starting lost_sys 0 = None" "air (host lost_sys) = Some ADV_CONN_FAST_1" by code_simp+
  ultimately show ?thesis using wakeup_can_be_lost [OF _ steps] by simp
qed

end
