(* ===== verification/BtCk.thy ===== *)
theory BtCk
  imports BleRc HttpClient "HOL-Library.Signed_Division"
begin

text \<open>
  The reboot test of \<open>src/ble_rc.c\<close>: a thread that switches the remote's host off and on
  through the relay and wakes it up over Bluetooth, until the shell stops it. Whenever the
  thread sleeps the other contexts run; \<open>ifc\<close>, an arbitrary function of the state, is what
  they do to it meanwhile.
\<close>

section \<open>Definitions\<close>

text \<open>\<open>while (time_s-- && g_bt_ck_running)\<close> behind a body that sleeps one second.\<close>

fun bt_ck_k_sleep ::
    "env \<Rightarrow> ('a ble_st_scheme \<Rightarrow> 'a ble_st_scheme) \<Rightarrow> nat \<Rightarrow> ('a ble_st_scheme, unit) state" where
  "bt_ck_k_sleep env ifc 0 = do {
     _ \<leftarrow> ext env (Kern (KSleepMs 1000));
     modify ifc
   }"
| "bt_ck_k_sleep env ifc (Suc n) = do {
     _ \<leftarrow> ext env (Kern (KSleepMs 1000));
     _ \<leftarrow> modify ifc;
     running \<leftarrow> get_field g_bt_ck_running;
     (if running then bt_ck_k_sleep env ifc n else State_Monad.return ())
   }"

text \<open>
  The range is computed with \<open>int\<close>s and truncated to a byte; \<open>None\<close> is a division by 0.
\<close>

definition rand_range :: "byte \<Rightarrow> byte \<Rightarrow> byte \<Rightarrow> byte option" where
  "rand_range r a b =
     (let n = uint b - uint a + 1
      in if n = 0 then None else Some (word_of_int (uint r smod n + uint a)))"

definition get_rand_range :: "env \<Rightarrow> byte \<Rightarrow> byte \<Rightarrow> ('a io_scheme, byte option) state" where
  "get_rand_range env a b = do {
     r \<leftarrow> ext env (Kern SysRand8Get);
     State_Monad.return (rand_range (word_of_int (r_rc r)) a b)
   }"

text \<open>\<open>STA_NETWORK_EN\<close> decides the time a wake-up packet is sent.\<close>

definition BLERC_WAKEUP_TIME_S :: "bool \<Rightarrow> int" where
  "BLERC_WAKEUP_TIME_S sta = (if sta then 10 else 6)"

definition wakeup_adv ::
    "env \<Rightarrow> ('a ble_st_scheme \<Rightarrow> 'a ble_st_scheme) \<Rightarrow> bool \<Rightarrow> ('a ble_st_scheme, int) state" where
  "wakeup_adv env ifc sta = do {
     _ \<leftarrow> try_advertising_begin env True;
     _ \<leftarrow> ext env (Kern (KSleepMs 100));
     _ \<leftarrow> modify ifc;
     try_advertising_end env (BLERC_WAKEUP_TIME_S sta)
   }"

text \<open>\<open>__wait_rc_connected\<close>: the local is the count of tries.\<close>

definition wait_body ::
    "env \<Rightarrow> ('a ble_st_scheme \<Rightarrow> 'a ble_st_scheme) \<Rightarrow> bool \<Rightarrow> int \<Rightarrow>
       ('a ble_st_scheme, bool + int) state" where
  "wait_body env ifc sta cnt = do {
     st \<leftarrow> get_field g_btrc_st;
     (if st = BTRC_ST_SECURITY_LV_OK then State_Monad.return (Inl True)
      else do {
        _ \<leftarrow> (if cnt mod 30 = 0 then wakeup_adv env ifc sta else State_Monad.return 0);
        _ \<leftarrow> bt_ck_k_sleep env ifc 1;
        running \<leftarrow> get_field g_bt_ck_running;
        State_Monad.return (if running then Inr (cnt + 1) else Inl False)
      })
   }"

definition wait_rc_connected ::
    "env \<Rightarrow> ('a ble_st_scheme \<Rightarrow> 'a ble_st_scheme) \<Rightarrow> bool \<Rightarrow> nat \<Rightarrow>
       ('a ble_st_scheme, bool option) state" where
  "wait_rc_connected env ifc sta fuel = loop_fuel fuel (wait_body env ifc sta) 1"

text \<open>
  The loops: an iteration leaves with \<open>Inl (Some ())\<close> when the flag is clear and with
  \<open>Inl None\<close> when the wait inside it is still running. \<open>then_running\<close> is the test behind
  each sleep.
\<close>

definition then_running ::
    "('a ble_st_scheme, unit option + unit) state \<Rightarrow> ('a ble_st_scheme, unit option + unit) state" where
  "then_running m = do {
     running \<leftarrow> get_field g_bt_ck_running;
     (if running then m else State_Monad.return (Inl (Some ())))
   }"

text \<open>The common end of both tests: wake up, wait, then sleep as given.\<close>

definition wake_and_wait ::
    "env \<Rightarrow> ('a ble_st_scheme \<Rightarrow> 'a ble_st_scheme) \<Rightarrow> bool \<Rightarrow> nat \<Rightarrow>
       ('a ble_st_scheme, unit option + unit) state \<Rightarrow> ('a ble_st_scheme, unit option + unit) state" where
  "wake_and_wait env ifc sta fuel rest = do {
     _ \<leftarrow> wakeup_adv env ifc sta;
     w \<leftarrow> wait_rc_connected env ifc sta fuel;
     (case w of
        None \<Rightarrow> State_Monad.return (Inl None)
      | Some _ \<Rightarrow> then_running rest)
   }"

definition looper_body ::
    "env \<Rightarrow> ('a ble_st_scheme \<Rightarrow> 'a ble_st_scheme) \<Rightarrow> bool \<Rightarrow> nat \<Rightarrow> unit \<Rightarrow>
       ('a ble_st_scheme, unit option + unit) state" where
  "looper_body env ifc sta fuel _ = then_running (do {
     _ \<leftarrow> do_send_key env 0x66;
     _ \<leftarrow> bt_ck_k_sleep env ifc 1;
     then_running (do {
       _ \<leftarrow> do_send_key env 0x66;
       r \<leftarrow> get_rand_range env 10 30;
       _ \<leftarrow> bt_ck_k_sleep env ifc (unat (the r));
       then_running (wake_and_wait env ifc sta fuel (do {
         r \<leftarrow> get_rand_range env 5 30;
         _ \<leftarrow> bt_ck_k_sleep env ifc (unat (the r));
         then_running (State_Monad.return (Inr ()))
       }))
     })
   })"

definition looper_2_body ::
    "env \<Rightarrow> ('a ble_st_scheme \<Rightarrow> 'a ble_st_scheme) \<Rightarrow> cstr \<Rightarrow> unit \<Rightarrow>
       ('a ble_st_scheme, unit option + unit) state" where
  "looper_2_body env ifc server _ = then_running (do {
     _ \<leftarrow> run_set_SK_v env server 0;
     _ \<leftarrow> bt_ck_k_sleep env ifc 5;
     then_running (do {
       _ \<leftarrow> run_set_SK_v env server 1;
       _ \<leftarrow> bt_ck_k_sleep env ifc 5;
       then_running (State_Monad.return (Inr ()))
     })
   })"

definition looper_3_body ::
    "env \<Rightarrow> ('a ble_st_scheme \<Rightarrow> 'a ble_st_scheme) \<Rightarrow> bool \<Rightarrow> cstr \<Rightarrow> nat \<Rightarrow> unit \<Rightarrow>
       ('a ble_st_scheme, unit option + unit) state" where
  "looper_3_body env ifc sta server fuel _ = then_running (do {
     _ \<leftarrow> run_set_SK_v env server 0;
     _ \<leftarrow> bt_ck_k_sleep env ifc 5;
     then_running (do {
       _ \<leftarrow> run_set_SK_v env server 1;
       _ \<leftarrow> bt_ck_k_sleep env ifc 5;
       then_running (wake_and_wait env ifc sta fuel (do {
         _ \<leftarrow> bt_ck_k_sleep env ifc 30;
         then_running (State_Monad.return (Inr ()))
       }))
     })
   })"

definition run_looper ::
    "nat \<Rightarrow> (unit \<Rightarrow> ('a ble_st_scheme, unit option + unit) state) \<Rightarrow> ('a ble_st_scheme, unit option) state" where
  "run_looper fuel body = do {
     _ \<leftarrow> modify (g_bt_ck_running_update (\<lambda>_. True));
     l \<leftarrow> loop_fuel fuel body ();
     State_Monad.return (case l of None \<Rightarrow> None | Some v \<Rightarrow> v)
   }"

definition bt_ck_looper ::
    "env \<Rightarrow> ('a ble_st_scheme \<Rightarrow> 'a ble_st_scheme) \<Rightarrow> bool \<Rightarrow> nat \<Rightarrow> ('a ble_st_scheme, unit option) state" where
  "bt_ck_looper env ifc sta fuel = run_looper fuel (looper_body env ifc sta fuel)"

definition bt_ck_looper_2 ::
    "env \<Rightarrow> ('a ble_st_scheme \<Rightarrow> 'a ble_st_scheme) \<Rightarrow> cstr \<Rightarrow> nat \<Rightarrow> ('a ble_st_scheme, unit option) state" where
  "bt_ck_looper_2 env ifc server fuel = run_looper fuel (looper_2_body env ifc server)"

definition bt_ck_looper_3 ::
    "env \<Rightarrow> ('a ble_st_scheme \<Rightarrow> 'a ble_st_scheme) \<Rightarrow> bool \<Rightarrow> cstr \<Rightarrow> nat \<Rightarrow> ('a ble_st_scheme, unit option) state" where
  "bt_ck_looper_3 env ifc sta server fuel = run_looper fuel (looper_3_body env ifc sta server fuel)"

text \<open>One round of the thread, and the two shell commands.\<close>

definition bt_ck_looper_round ::
    "env \<Rightarrow> ('a ble_st_scheme \<Rightarrow> 'a ble_st_scheme) \<Rightarrow> bool \<Rightarrow> cstr \<Rightarrow> nat \<Rightarrow> ('a ble_st_scheme, unit option) state" where
  "bt_ck_looper_round env ifc sta server fuel = do {
     _ \<leftarrow> ext env (Bt KSemTake);
     _ \<leftarrow> modify ifc;
     bt_ck_looper_3 env ifc sta server fuel
   }"

definition cmd_auto_reboot_start :: "env \<Rightarrow> ('a io_scheme, int) state" where
  "cmd_auto_reboot_start env = do { _ \<leftarrow> ext env (Bt KSemGive); State_Monad.return 0 }"

definition cmd_auto_reboot_stop :: "('a ble_st_scheme, int) state" where
  "cmd_auto_reboot_stop = do {
     _ \<leftarrow> modify (g_bt_ck_running_update (\<lambda>_. False));
     State_Monad.return 0
   }"

declare bt_ck_k_sleep.simps [simp del]

lemma smod_nonneg:
  assumes "0 \<le> x" and "0 < (n :: int)"
  shows "x smod n = x mod n"
proof (cases "x = 0")
  case True
  with assms show ?thesis by (simp add: signed_modulo_int_def signed_divide_int_def)
next
  case False
  with assms have "sgn x = 1" "sgn n = 1" "\<bar>x\<bar> = x" "\<bar>n\<bar> = n" by simp_all
  then show ?thesis
    by (simp add: signed_modulo_int_def signed_divide_int_def minus_div_mult_eq_mod)
qed

section \<open>Sleeping\<close>

fun is_second :: "event \<Rightarrow> bool" where
  "is_second (Kern (KSleepMs n), r) = (n = 1000)"
| "is_second _ = False"

definition seconds :: "event list \<Rightarrow> nat" where
  "seconds tr = length (filter is_second tr)"

lemma seconds_append [simp]: "seconds (xs @ ys) = seconds xs + seconds ys"
  by (simp add: seconds_def)

lemma seconds_Cons [simp]: "seconds (e # es) = (if is_second e then Suc (seconds es) else seconds es)"
  by (simp add: seconds_def)

lemma seconds_Nil [simp]: "seconds [] = 0"
  by (simp add: seconds_def)

text \<open>Interference of whatever kind that does not itself sleep for seconds in the test's name.\<close>

definition own_seconds :: "('a ble_st_scheme \<Rightarrow> 'a ble_st_scheme) \<Rightarrow> bool" where
  "own_seconds ifc \<longleftrightarrow> (\<forall>s. seconds (trace (ifc s)) = seconds (trace s))"

text \<open>
  Sleeping takes one second more than asked for: a sleep of \<open>n\<close> that is not stopped
  lasts \<open>n + 1\<close> seconds, a stopped one ends with the second in which the flag was cleared.
\<close>

lemma bt_ck_sleep_cases:
  assumes "own_seconds ifc" and "run_state (bt_ck_k_sleep env ifc n) s = (u, t)"
  shows "seconds (trace t) \<le> seconds (trace s) + n + 1"
    and "g_bt_ck_running t \<longrightarrow> seconds (trace t) = seconds (trace s) + n + 1"
    and "(\<forall>s. \<not> g_bt_ck_running (ifc s)) \<longrightarrow> seconds (trace t) = seconds (trace s) + 1"
  using assms
proof (induction n arbitrary: s)
  case 0
  {
    case 1 then show ?case by (auto simp: bt_ck_k_sleep.simps run_iff own_seconds_def)
  next
    case 2 then show ?case by (auto simp: bt_ck_k_sleep.simps run_iff own_seconds_def)
  next
    case 3 then show ?case by (auto simp: bt_ck_k_sleep.simps run_iff own_seconds_def)
  }
next
  case (Suc n)
  {
    case 1 with Suc.IH(1) show ?case by (fastforce simp: bt_ck_k_sleep.simps run_iff own_seconds_def)
  next
    case 2 with Suc.IH(2) show ?case by (fastforce simp: bt_ck_k_sleep.simps run_iff own_seconds_def)
  next
    case 3 then show ?case by (auto simp: bt_ck_k_sleep.simps run_iff own_seconds_def)
  }
qed

section \<open>The advertising invariant\<close>

text \<open>The other contexts keep the advertising invariant, as theory \<open>BleSteps\<close> shows they do.\<close>

definition keeps_adv :: "('a ble_st_scheme \<Rightarrow> 'a ble_st_scheme) \<Rightarrow> bool" where
  "keeps_adv ifc \<longleftrightarrow> (\<forall>s. adv_ok s \<longrightarrow> adv_ok (ifc s))"

lemma adv_ok_neutral [simp]:
  "adv_ok (s\<lparr>g_bt_ck_running := b\<rparr>) \<longleftrightarrow> adv_ok s"
  "adv_ok (s\<lparr>trace := trace s @ [(Kern k, r)]\<rparr>) \<longleftrightarrow> adv_ok s"
  "adv_ok (s\<lparr>trace := trace s @ [(Net n, r)]\<rparr>) \<longleftrightarrow> adv_ok s"
  "adv_ok (s\<lparr>errno := e\<rparr>) \<longleftrightarrow> adv_ok s"
  "adv_ok (s\<lparr>trace := trace s @ [(Net n, r)], errno := e\<rparr>) \<longleftrightarrow> adv_ok s"
  "adv_ok (s\<lparr>report_val := v\<rparr>) \<longleftrightarrow> adv_ok s"
  "adv_ok (s\<lparr>trace := trace s @ [(Bt (BtGattNotify i v), r)]\<rparr>) \<longleftrightarrow> adv_ok s"
  by (simp_all add: adv_ok_def)

lemma ble_preserves [pres_rules]:
  "preserves adv_ok (try_advertising_begin env w)"
  "preserves adv_ok (try_advertising_end env n)"
  unfolding preserves_def by (blast intro: try_advertising_begin_ok try_advertising_end_ok)+

lemma bt_ck_k_sleep_ok [pres_rules]: "keeps_adv ifc \<Longrightarrow> preserves adv_ok (bt_ck_k_sleep env ifc n)"
  by (induction n) (auto simp: bt_ck_k_sleep.simps keeps_adv_def intro!: pres_rules)

lemma run_set_SK_v_ok [pres_rules]: "preserves adv_ok (run_set_SK_v env server v)"
  unfolding run_set_SK_v_def http_defs by (intro pres_rules) auto

lemma do_send_key_ok [pres_rules]: "preserves adv_ok (do_send_key env key)"
  unfolding do_send_key_def notify_report_def by (intro pres_rules) auto

lemma wakeup_adv_ok [pres_rules]: "keeps_adv ifc \<Longrightarrow> preserves adv_ok (wakeup_adv env ifc sta)"
  unfolding wakeup_adv_def by (intro pres_rules) (auto simp: keeps_adv_def)

lemma wait_rc_connected_ok [pres_rules]:
  "keeps_adv ifc \<Longrightarrow> preserves adv_ok (wait_rc_connected env ifc sta fuel)"
  unfolding wait_rc_connected_def wait_body_def by (intro pres_rules)

lemmas looper_defs = looper_body_def looper_2_body_def looper_3_body_def then_running_def
  wake_and_wait_def get_rand_range_def run_looper_def bt_ck_looper_def bt_ck_looper_2_def bt_ck_looper_3_def

lemma loopers_ok [pres_rules]:
  assumes "keeps_adv ifc"
  shows "preserves adv_ok (bt_ck_looper env ifc sta fuel)"
    and "preserves adv_ok (bt_ck_looper_2 env ifc server fuel)"
    and "preserves adv_ok (bt_ck_looper_3 env ifc sta server fuel)"
  unfolding looper_defs by (intro pres_rules assms; simp)+

section \<open>Properties\<close>

text \<open>
  C40: Sleeping takes one second more than asked for: a sleep of \<open>n\<close> that is not stopped lasts
  \<open>n + 1\<close> seconds, and once the flag is cleared the sleep ends with the current second.
\<close>

theorem bt_ck_k_sleep_seconds:
  assumes "own_seconds ifc" and "run_state (bt_ck_k_sleep env ifc n) s = (u, t)"
  shows "seconds (trace t) \<le> seconds (trace s) + n + 1 \<and>
    (g_bt_ck_running t \<longrightarrow> seconds (trace t) = seconds (trace s) + n + 1) \<and>
    ((\<forall>s. \<not> g_bt_ck_running (ifc s)) \<longrightarrow> seconds (trace t) = seconds (trace s) + 1)"
  using bt_ck_sleep_cases [OF assms] by blast

theorem bt_ck_k_sleep_seconds_witness:
  "seconds (trace (final (bt_ck_k_sleep (sim_env []) (\<lambda>s. s) 5) (ble0\<lparr>g_bt_ck_running := True\<rparr>))) = 6"
proof -
  have "own_seconds (\<lambda>s :: ble_st. s)" by (simp add: own_seconds_def)
  moreover have "g_bt_ck_running (final (bt_ck_k_sleep (sim_env []) (\<lambda>s. s) 5) (ble0\<lparr>g_bt_ck_running := True\<rparr>))"
    by code_simp
  ultimately show ?thesis
    using bt_ck_k_sleep_seconds [OF _ run_result, of "\<lambda>s. s" "sim_env []" 5 "ble0\<lparr>g_bt_ck_running := True\<rparr>"]
    by (simp add: ble0_def)
qed



text \<open>
  The reboot test keeps the advertising invariant, for any number of rounds and whatever
  the other contexts do while it sleeps, as long as they keep it.
\<close>

theorem reboot_test_adv_ok:
  assumes "keeps_adv ifc" and "adv_ok s" and "run_state (bt_ck_looper_3 env ifc sta server fuel) s = (v, t)"
  shows "adv_ok t"
  by (rule preservesD [OF loopers_ok(3) assms(2,3)]) (rule assms(1))

theorem reboot_test_adv_ok_witness:
  "adv_ok (final (bt_ck_looper_3 (sim_env []) (\<lambda>s. s) True ''10.0.0.1'' 5) ble0)"
proof -
  have "keeps_adv (\<lambda>s :: ble_st. s)" by (simp add: keeps_adv_def)
  moreover have "adv_ok ble0" by (simp add: adv_ok_def ble0_def host0_def)
  ultimately show ?thesis by (rule reboot_test_adv_ok [OF _ _ run_result])
qed

end
