(* ===== verification/RpcRoute.thy ===== *)
theory RpcRoute
  imports BleRc
begin

text \<open>
  \<open>src/rpc_route.c\<close>: remote procedure calls that arrive as JSON over the websocket. The
  parser (\<open>json_obj_parse\<close>) is not part of the repository and is a parameter: it returns a
  number, negative when it fails, and the request it stored. The request is zeroed before,
  so a string the message does not contain stays NULL (\<open>None\<close>).
\<close>

section \<open>Definitions\<close>

definition MAX_PARAS :: nat where
  "MAX_PARAS = 5"

record parameter =
  para_k :: "cstr option"
  para_v :: "cstr option"

text \<open>\<open>num_paras\<close> is the length of the list.\<close>

record rpc_func =
  rpc_name :: "cstr option"
  rpc_paras :: "parameter list"

type_synonym json_parser = "byte list \<Rightarrow> int \<times> rpc_func"

text \<open>
  \<open>get_v_by_k\<close> hands every key to \<open>strcmp\<close>, which must not be given NULL: \<open>None\<close> is that
  undefined call, \<open>Some None\<close> the NULL it returns for a missing key.
\<close>

fun get_v_by_k :: "parameter list \<Rightarrow> cstr \<Rightarrow> cstr option option" where
  "get_v_by_k [] key = Some None"
| "get_v_by_k (p # ps) key = (case para_k p of
     None \<Rightarrow> None
   | Some k \<Rightarrow> if strcmp_eq k key then Some (para_v p) else get_v_by_k ps key)"

text \<open>\<open>get_k_idx\<close> compares as many characters as the key has: a prefix test.\<close>

fun get_k_from :: "nat \<Rightarrow> parameter list \<Rightarrow> cstr \<Rightarrow> int option" where
  "get_k_from i [] key = Some (- 1)"
| "get_k_from i (p # ps) key = (case para_k p of
     None \<Rightarrow> None
   | Some k \<Rightarrow> if strncmp_eq k key (length key) then Some (int i) else get_k_from (Suc i) ps key)"

definition get_k_idx :: "parameter list \<Rightarrow> cstr \<Rightarrow> int option" where
  "get_k_idx paras key = get_k_from 0 paras key"

text \<open>
  \<open>GET_PARAM_REQUIRED\<close>: a missing parameter returns from the handler. The handler is
  written over the two functions it calls; \<open>None\<close> is the undefined call.
\<close>

definition GET_PARAM_REQUIRED ::
    "parameter list \<Rightarrow> cstr \<Rightarrow> (cstr \<Rightarrow> ('s, unit option) state) \<Rightarrow> ('s, unit option) state" where
  "GET_PARAM_REQUIRED paras key rest = (case get_v_by_k paras key of
     None \<Rightarrow> State_Monad.return None
   | Some var \<Rightarrow> (case var of
       None \<Rightarrow> State_Monad.return (Some ())
     | Some v \<Rightarrow> rest v))"

definition func_ble_adv_with ::
    "(bool \<Rightarrow> int \<Rightarrow> ('s, int) state) \<Rightarrow> ('s, int) state \<Rightarrow> parameter list \<Rightarrow> ('s, unit option) state" where
  "func_ble_adv_with start stop paras =
     GET_PARAM_REQUIRED paras ''op'' (\<lambda>op_str.
       if strncmp_eq op_str ''start'' 5 then
         GET_PARAM_REQUIRED paras ''duration'' (\<lambda>duration_str.
           GET_PARAM_REQUIRED paras ''mode'' (\<lambda>mode_str. do {
             let isWakeup = strncmp_eq mode_str ''wakeup'' 6;
             _ \<leftarrow> start isWakeup (atoi duration_str);
             State_Monad.return (Some ())
           }))
       else if strncmp_eq op_str ''stop'' 5 then do { _ \<leftarrow> stop; State_Monad.return (Some ()) }
       else State_Monad.return (Some ()))"

definition func_ble_adv :: "env \<Rightarrow> parameter list \<Rightarrow> ('a ble_st_scheme, unit option) state" where
  "func_ble_adv env = func_ble_adv_with (try_advertising_start env) (advertising_stop env)"

text \<open>The table of routes; the first route with the name is taken, and no other.\<close>

definition routes :: "env \<Rightarrow> (cstr \<times> (parameter list \<Rightarrow> ('a ble_st_scheme, unit option) state)) list" where
  "routes env = [(''ble_adv'', func_ble_adv env)]"

fun dispatch :: "(cstr \<times> (parameter list \<Rightarrow> ('s, unit option) state)) list \<Rightarrow>
    cstr \<Rightarrow> parameter list \<Rightarrow> ('s, unit option) state" where
  "dispatch [] func paras = State_Monad.return (Some ())"
| "dispatch ((name, handler) # rs) func paras =
     (if strcmp_eq func name then handler paras else dispatch rs func paras)"

definition rpc_execute ::
    "env \<Rightarrow> json_parser \<Rightarrow> byte list \<Rightarrow> ('a ble_st_scheme, unit option) state" where
  "rpc_execute env parse json_str =
     (let (ret, req) = parse json_str
      in case rpc_name req of
           None \<Rightarrow> State_Monad.return (Some ())
         | Some func \<Rightarrow>
             if ret < 0 then State_Monad.return (Some ())
             else dispatch (routes env) func (rpc_paras req))"

section \<open>Lookup\<close>

text \<open>A request whose parameters all have both strings is an association list.\<close>

definition complete_paras :: "parameter list \<Rightarrow> bool" where
  "complete_paras ps \<longleftrightarrow> (\<forall>p \<in> set ps. para_k p \<noteq> None \<and> para_v p \<noteq> None)"

definition para_map :: "parameter list \<Rightarrow> cstr \<rightharpoonup> cstr" where
  "para_map ps = map_of (map (\<lambda>p. (the (para_k p), the (para_v p))) ps)"

lemma get_v_by_k_map [simp]:
  "complete_paras ps \<Longrightarrow> get_v_by_k ps key = Some (para_map ps key)"
  by (induction ps) (auto simp: complete_paras_def para_map_def strcmp_eq_def split: option.splits)

section \<open>Clients of the advertising interface\<close>

context adv_ctl begin

lemma required_keeps:
  "\<lbrakk>run_state (GET_PARAM_REQUIRED paras key rest) s = (r, t); inv s;
    \<And>v r t. run_state (rest v) s = (r, t) \<Longrightarrow> inv t\<rbrakk> \<Longrightarrow> inv t"
  unfolding GET_PARAM_REQUIRED_def by (auto split: option.splits)

lemma func_ble_adv_keeps:
  assumes "inv s" and "run_state (func_ble_adv_with start stop paras) s = (r, t)"
  shows "inv t"
  using assms unfolding func_ble_adv_with_def GET_PARAM_REQUIRED_def
  by (auto simp: run_iff split: option.splits if_splits intro: start_keeps stop_keeps)

end

section \<open>Properties\<close>

text \<open>What a request asks for, as a command of the advertising interface.\<close>

datatype adv_command = StartAdv bool int | StopAdv | NoCommand

definition command_of :: "(cstr \<rightharpoonup> cstr) \<Rightarrow> adv_command" where
  "command_of m = (case m ''op'' of
     None \<Rightarrow> NoCommand
   | Some op_str \<Rightarrow>
       if take 5 op_str = ''start'' then
         (case (m ''duration'', m ''mode'') of
            (Some d, Some md) \<Rightarrow> StartAdv (take 6 md = ''wakeup'') (atoi d)
          | _ \<Rightarrow> NoCommand)
       else if op_str = ''stop'' then StopAdv
       else NoCommand)"

fun perform_command :: "env \<Rightarrow> adv_command \<Rightarrow> ('a ble_st_scheme, int) state" where
  "perform_command env (StartAdv w n) = try_advertising_start env w n"
| "perform_command env StopAdv = advertising_stop env"
| "perform_command env NoCommand = State_Monad.return 0"

definition request_command :: "int \<times> rpc_func \<Rightarrow> adv_command" where
  "request_command q =
     (if fst q \<ge> 0 \<and> rpc_name (snd q) = Some ''ble_adv'' then command_of (para_map (rpc_paras (snd q)))
      else NoCommand)"

lemma required_map:
  "complete_paras ps \<Longrightarrow> GET_PARAM_REQUIRED ps key rest =
     (case para_map ps key of None \<Rightarrow> State_Monad.return (Some ()) | Some v \<Rightarrow> rest v)"
  by (simp add: GET_PARAM_REQUIRED_def)

lemma op_tests:
  "strncmp_eq x ''start'' 5 \<longleftrightarrow> take 5 x = ''start''"
  "strncmp_eq x ''wakeup'' 6 \<longleftrightarrow> take 6 x = ''wakeup''"
  "strncmp_eq x ''stop'' 5 \<longleftrightarrow> x = ''stop''"
  by (simp add: strncmp_eq_def, simp add: strncmp_eq_def, rule strncmp_eq_short, simp)

lemma func_ble_adv_command:
  assumes "complete_paras ps"
  shows "func_ble_adv env ps =
    do { _ \<leftarrow> perform_command env (command_of (para_map ps)); State_Monad.return (Some ()) }"
  unfolding func_ble_adv_def func_ble_adv_with_def required_map [OF assms] command_of_def op_tests
  by (cases "para_map ps ''op''"; cases "para_map ps ''duration''"; cases "para_map ps ''mode''")
    (simp_all del: take_eq_Nil)

lemma rpc_execute_request:
  "rpc_execute env parse msg =
     (if fst (parse msg) \<ge> 0 \<and> rpc_name (snd (parse msg)) = Some ''ble_adv''
      then func_ble_adv env (rpc_paras (snd (parse msg))) else State_Monad.return (Some ()))"
  unfolding rpc_execute_def routes_def
  by (cases "parse msg"; cases "rpc_name (snd (parse msg))") (simp_all add: strcmp_eq_def)

text \<open>
  C5: A message whose parameters are complete does what its request asks for and nothing else:
  executing it is performing the command its parameters name, taken as a map in which the
  first of two equal keys counts. Without \<open>duration\<close> or \<open>mode\<close> a start is no command, and
  any \<open>op\<close> that begins with \<open>start\<close> is one, while \<open>stop\<close> has to match exactly.
\<close>

theorem rpc_execute_is_command:
  assumes "complete_paras (rpc_paras (snd (parse msg)))"
  shows "rpc_execute env parse msg =
    do { _ \<leftarrow> perform_command env (request_command (parse msg)); State_Monad.return (Some ()) }"
  by (simp add: rpc_execute_request func_ble_adv_command [OF assms] request_command_def)

text \<open>Requests as lists of pairs, for the examples.\<close>

definition request :: "cstr \<Rightarrow> (cstr \<times> cstr) list \<Rightarrow> rpc_func" where
  "request f ps = \<lparr>rpc_name = Some f, rpc_paras = map (\<lambda>(k, v). \<lparr>para_k = Some k, para_v = Some v\<rparr>) ps\<rparr>"

definition wakeup_request :: "int \<times> rpc_func" where
  "wakeup_request = (3, request ''ble_adv'' [(''duration'', ''100''), (''op'', ''start''), (''mode'', ''wakeup'')])"

theorem rpc_execute_is_command_witness:
  "rpc_execute (sim_env []) (\<lambda>_. wakeup_request) [] =
     do { _ \<leftarrow> try_advertising_start (sim_env []) True 100; State_Monad.return (Some ()) }"
proof -
  have "complete_paras (rpc_paras (snd wakeup_request))"
    by (simp add: complete_paras_def wakeup_request_def request_def)
  moreover have "request_command wakeup_request = StartAdv True 100"
    by code_simp
  ultimately show ?thesis
    using rpc_execute_is_command [of "\<lambda>_. wakeup_request" "[]" "sim_env []"] by simp
qed

text \<open>
  The request the file gives as its example has no \<open>mode\<close>, and \<open>mode\<close> is required: it
  starts nothing.
\<close>

theorem documented_request_ignored:
  "rpc_execute env (\<lambda>_. (3, request ''ble_adv'' [(''duration'', ''100''), (''op'', ''start'')])) msg =
     State_Monad.return (Some ())"
  by (simp add: rpc_execute_request func_ble_adv_def func_ble_adv_with_def GET_PARAM_REQUIRED_def
      request_def strcmp_eq_def strncmp_eq_def)

text \<open>
  Executing a message keeps the advertising invariant, for every parser, message and
  platform.
\<close>

theorem rpc_execute_adv_ok:
  assumes "adv_ok s" and "run_state (rpc_execute env parse msg) s = (r, t)"
  shows "adv_ok t"
  using assms ble_adv.func_ble_adv_keeps
  by (auto simp: rpc_execute_request func_ble_adv_def split: if_splits)

theorem rpc_execute_adv_ok_witness:
  "adv_ok (final (rpc_execute (sim_env []) (\<lambda>_. wakeup_request) []) ble0)"
proof -
  have "adv_ok ble0" by (simp add: adv_ok_def ble0_def host0_def)
  then show ?thesis by (rule rpc_execute_adv_ok [OF _ run_result])
qed

text \<open>
  A parameter without a key is undefined behaviour: a message for \<open>ble_adv\<close> whose first
  parameter has no \<open>"k"\<close> hands NULL to \<open>strcmp\<close>, before anything else happens.
\<close>

theorem rpc_missing_key:
  assumes "parse msg = (ret, \<lparr>rpc_name = Some ''ble_adv'', rpc_paras = \<lparr>para_k = None, para_v = v\<rparr> # ps\<rparr>)"
    and "0 \<le> ret"
  shows "run_state (rpc_execute env parse msg) s = (None, s)"
  using assms by (simp add: rpc_execute_def routes_def func_ble_adv_def func_ble_adv_with_def
      GET_PARAM_REQUIRED_def strcmp_eq_def)

theorem rpc_missing_key_witness:
  "result (rpc_execute (sim_env [])
     (\<lambda>_. (3, \<lparr>rpc_name = Some ''ble_adv'', rpc_paras = [\<lparr>para_k = None, para_v = Some ''start''\<rparr>]\<rparr>)) []) ble0 = None"
  unfolding result_def
  by (subst rpc_missing_key [where v = "Some ''start''" and ps = "[]" and ret = 3]) simp_all

end
