(* ===== verification/RpcSend.thy ===== *)
theory RpcSend
  imports CString
begin

text \<open>
  \<open>src/rpc_send.c\<close>: the messages the device sends. The encoder (\<open>json_obj_encode_buf\<close>) is
  not part of the repository and is a parameter: for a payload and the size of the buffer
  it returns its result and the characters it wrote from the start of the buffer on.
\<close>

section \<open>Definitions\<close>

definition MAX_PARAS_COUNT :: nat where
  "MAX_PARAS_COUNT = 10"

type_synonym para_item = "cstr \<times> cstr"

text \<open>\<open>num_paras\<close> is the length of the list.\<close>

record msg_payload =
  pl_func :: cstr
  pl_paras :: "para_item list"

type_synonym json_encoder = "msg_payload \<Rightarrow> u32 \<Rightarrow> int \<times> cstr"

definition payload_paras_add :: "msg_payload \<Rightarrow> cstr \<Rightarrow> cstr \<Rightarrow> int \<times> msg_payload" where
  "payload_paras_add p k v =
     (if length (pl_paras p) \<ge> MAX_PARAS_COUNT then (- 1, p)
      else (0, p\<lparr>pl_paras := pl_paras p @ [(k, v)]\<rparr>))"

text \<open>\<open>strlen\<close> of a buffer; \<open>None\<close> when no NUL ends the string inside of it.\<close>

definition strlen_buf :: "char list \<Rightarrow> nat option" where
  "strlen_buf buf =
     (let n = length (takeWhile (\<lambda>c. c \<noteq> CHR 0x00) buf) in if n < length buf then Some n else None)"

text \<open>
  The result with the buffer as it is left; \<open>None\<close> is an access outside of the buffer.
  The lengths are \<open>int\<close>s that \<open>memset\<close> and the encoder take as \<open>size_t\<close>.
\<close>

definition payload_to_josn_str ::
    "json_encoder \<Rightarrow> msg_payload \<Rightarrow> char list \<Rightarrow> int \<Rightarrow> (int \<times> char list) option" where
  "payload_to_josn_str encode p buf buf_len =
     (let size = unat (word_of_int buf_len :: u32)
      in if length buf < size then None
         else let zeroed = replicate size (CHR 0x00) @ drop size buf;
                  (ret, w) = encode p (word_of_int (buf_len - 1))
              in if length buf < length w then None
                 else let left = w @ drop (length w) zeroed
                      in if ret < 0 then Some (- 1, left)
                         else map_option (\<lambda>n. (int n, left)) (strlen_buf left))"

text \<open>A null buffer is \<open>None\<close>; the result is the return value and the buffer.\<close>

definition build_message ::
    "json_encoder \<Rightarrow> cstr \<Rightarrow> cstr \<Rightarrow> cstr \<Rightarrow> char list option \<Rightarrow> int \<Rightarrow> (int \<times> char list option) option" where
  "build_message encode func k v buf buf_len = (case buf of
     None \<Rightarrow> Some (- 1, None)
   | Some b \<Rightarrow>
       if buf_len = 0 then Some (- 1, Some b)
       else let (_, p) = payload_paras_add \<lparr>pl_func = func, pl_paras = []\<rparr> k v
            in map_option (\<lambda>(ret, left). (if ret < 0 then - 1 else ret, Some left))
                 (payload_to_josn_str encode p b buf_len))"

definition build_action_hello ::
    "json_encoder \<Rightarrow> char list option \<Rightarrow> int \<Rightarrow> (int \<times> char list option) option" where
  "build_action_hello encode = build_message encode ''hello'' ''mac'' ''11:22:33:44:55:66''"

definition build_status_ble_ready ::
    "json_encoder \<Rightarrow> char list option \<Rightarrow> int \<Rightarrow> (int \<times> char list option) option" where
  "build_status_ble_ready encode = build_message encode ''status'' ''state'' ''ble_ready''"

section \<open>Properties\<close>

text \<open>Adding several parameters, in order.\<close>

definition add_all :: "(cstr \<times> cstr) list \<Rightarrow> msg_payload \<Rightarrow> int list \<times> msg_payload" where
  "add_all ps p = foldl (\<lambda>(rs, q) (k, v). let (r, q') = payload_paras_add q k v in (rs @ [r], q')) ([], p) ps"

lemma add_all_Nil [simp]: "add_all [] p = ([], p)"
  by (simp add: add_all_def)

lemma add_all_snoc [simp]:
  "add_all (ps @ [kv]) p =
     (let (rs, q) = add_all ps p; (r, q') = payload_paras_add q (fst kv) (snd kv) in (rs @ [r], q'))"
  by (cases kv) (simp add: add_all_def Let_def split: prod.splits)

text \<open>
  A payload takes the first ten parameters and refuses the rest with -1, without losing
  or reordering any.
\<close>

theorem payload_keeps_ten:
  "add_all ps \<lparr>pl_func = f, pl_paras = []\<rparr> =
     (replicate (min 10 (length ps)) 0 @ replicate (length ps - 10) (- 1),
      \<lparr>pl_func = f, pl_paras = take 10 ps\<rparr>)"
proof (induction ps rule: rev_induct)
  case Nil
  then show ?case by simp
next
  case (snoc kv ps)
  show ?case
  proof (cases "length ps < 10")
    case True
    with snoc show ?thesis
      by (simp add: payload_paras_add_def MAX_PARAS_COUNT_def replicate_append_same)
  next
    case False
    then have "Suc (length ps) - 10 = Suc (length ps - 10)" by simp
    with False snoc show ?thesis
      by (simp add: payload_paras_add_def MAX_PARAS_COUNT_def replicate_append_same min_def)
  qed
qed

text \<open>
  What the encoder promises: it writes at most the size it was given; it succeeds when the
  text of the payload and its terminator fit, and has then written them; the text holds no
  NUL character.
\<close>

definition encodes :: "json_encoder \<Rightarrow> (msg_payload \<Rightarrow> cstr) \<Rightarrow> bool" where
  "encodes encode json \<longleftrightarrow> (\<forall>p n. case encode p n of (ret, w) \<Rightarrow>
     length w \<le> unat n \<and> CHR 0x00 \<notin> set (json p) \<and>
     (0 \<le> ret \<longleftrightarrow> length (json p) < unat n) \<and>
     (0 \<le> ret \<longrightarrow> w = json p @ [CHR 0x00]))"

text \<open>
  C29: A message never leaves its buffer: with such an encoder and a buffer of the announced
  length the builder returns the length of the message, which is in the buffer completely
  and followed by NULs only up to the announced length, or -1 when message and terminator
  do not fit in one byte less than announced: the last byte of the buffer stays unused.
\<close>

theorem hello_in_bounds:
  assumes "encodes encode json" and "length buf = nat n" and "0 < n" and "n < 2 ^ 31"
    and "msg = json \<lparr>pl_func = ''hello'', pl_paras = [(''mac'', ''11:22:33:44:55:66'')]\<rparr>"
  shows "\<exists>r left. build_action_hello encode (Some buf) n = Some (r, Some left) \<and> length left = nat n \<and>
    (if int (length msg) + 1 < n
     then r = int (length msg) \<and> left = msg @ replicate (nat n - length msg) (CHR 0x00)
     else r = - 1)"
proof -
  let ?p = "\<lparr>pl_func = ''hello'', pl_paras = [(''mac'', ''11:22:33:44:55:66'')]\<rparr>"
  define sz :: u32 where "sz = word_of_int (n - 1)"
  obtain ret w where e: "encode ?p sz = (ret, w)" by fastforce
  have n: "unat (word_of_int n :: u32) = nat n" "unat sz = nat (n - 1)"
    unfolding sz_def using assms(3,4)
    by (simp_all only: unat_eq_nat_uint uint_word_of_int) (simp_all add: take_bit_int_eq_self)
  from assms(1) have "case encode ?p sz of (ret, w) \<Rightarrow> length w \<le> unat sz \<and>
      CHR 0x00 \<notin> set (json ?p) \<and> (0 \<le> ret \<longleftrightarrow> length (json ?p) < unat sz) \<and>
      (0 \<le> ret \<longrightarrow> w = json ?p @ [CHR 0x00])"
    unfolding encodes_def by (elim allE)
  then have "length w \<le> nat (n - 1) \<and> CHR 0x00 \<notin> set (json ?p) \<and>
      (0 \<le> ret \<longleftrightarrow> length (json ?p) < nat (n - 1)) \<and> (0 \<le> ret \<longrightarrow> w = json ?p @ [CHR 0x00])"
    unfolding e n prod.case .
  then have w: "length w \<le> nat (n - 1)" and z: "CHR 0x00 \<notin> set (json ?p)"
    and fits: "0 \<le> ret \<longleftrightarrow> length (json ?p) < nat (n - 1)"
    and ok: "0 \<le> ret \<Longrightarrow> w = json ?p @ [CHR 0x00]"
    by blast+
  define left where "left = w @ replicate (nat n - length w) (CHR 0x00)"
  have len: "length left = nat n" using w by (simp add: left_def)
  have wn: "\<not> nat n < length w" using w assms(3) by simp
  have "payload_to_josn_str encode ?p buf n =
     (if ret < 0 then Some (- 1, left) else map_option (\<lambda>k. (int k, left)) (strlen_buf left))"
    unfolding payload_to_josn_str_def sz_def [symmetric] left_def
    using assms(2,3) wn by (simp add: e n(1) Let_def)
  then have run: "build_action_hello encode (Some buf) n =
     (if ret < 0 then Some (- 1, Some left)
      else map_option (\<lambda>k. (int k, Some left)) (strlen_buf left))"
    unfolding build_action_hello_def build_message_def
    using assms(3) by (simp add: payload_paras_add_def MAX_PARAS_COUNT_def option.map_comp comp_def)
  show ?thesis
  proof (cases "ret < 0")
    case True
    with run len fits assms(5) show ?thesis by auto
  next
    case False
    then have m: "w = json ?p @ [CHR 0x00]" using ok by simp
    then have "Suc (nat n - length w) = nat n - length (json ?p)" using w assms(3) by simp
    then have left: "left = json ?p @ replicate (nat n - length (json ?p)) (CHR 0x00)"
      by (simp add: left_def m flip: replicate_Suc)
    have "takeWhile (\<lambda>c. c \<noteq> CHR 0x00) left = json ?p"
      unfolding left using z by (induction "json ?p") (auto simp: takeWhile_append)
    then have "strlen_buf left = Some (length (json ?p))"
      using w m len assms(3) by (simp add: strlen_buf_def Let_def)
    with run False left len fits assms(5) show ?thesis by auto
  qed
qed

text \<open>An encoder for payloads of plain strings, as the concrete instance.\<close>

definition quoted :: "cstr \<Rightarrow> cstr" where
  "quoted x = [CHR 0x22] @ x @ [CHR 0x22]"

fun commas :: "cstr list \<Rightarrow> cstr" where
  "commas [] = []"
| "commas [x] = x"
| "commas (x # y # xs) = x @ '','' @ commas (y # xs)"

definition json_text :: "msg_payload \<Rightarrow> cstr" where
  "json_text p = filter (\<lambda>c. c \<noteq> CHR 0x00)
     (''{'' @ quoted ''func'' @ '':'' @ quoted (pl_func p) @ '','' @ quoted ''paras'' @ '':['' @
      commas (map (\<lambda>(k, v). ''{'' @ quoted ''k'' @ '':'' @ quoted k @ '','' @ quoted ''v'' @ '':'' @ quoted v @ ''}'')
        (pl_paras p)) @ '']}'')"

definition json_demo :: json_encoder where
  "json_demo p n = (let w = json_text p @ [CHR 0x00] in
     if length w \<le> unat n then (0, w) else (- 12, take (unat n) w))"

lemma json_demo_encodes: "encodes json_demo json_text"
  by (simp add: encodes_def json_demo_def Let_def) (simp add: json_text_def)

theorem hello_in_bounds_witness:
  "\<exists>left. build_action_hello json_demo (Some (replicate 128 (CHR ''x''))) 128 = Some (62, Some left) \<and>
     length left = 128"
proof -
  let ?p = "\<lparr>pl_func = ''hello'', pl_paras = [(''mac'', ''11:22:33:44:55:66'')]\<rparr>"
  have len: "length (json_text ?p) = 62" by code_simp
  from hello_in_bounds [OF json_demo_encodes, of "replicate 128 (CHR ''x'')" 128, OF _ _ _ refl]
  show ?thesis by (auto simp: len)
qed

end
