(* ===== verification/EvtQueue.thy ===== *)
theory EvtQueue
  imports BleRc
begin

text \<open>
  The event queue of \<open>src/main.c\<close> (a linked list under a mutex, with an eventfd that wakes
  the main loop) and the Wi-Fi station of \<open>src/sta.c\<close>, which posts to it. The mutex makes
  appending and taking one step each; nothing else happens under it.
\<close>

section \<open>Definitions\<close>

record evt_msg =
  msg_type :: u32
  msg_len :: u32
  msg_data :: u32

record pollfd =
  pfd_fd :: int
  pfd_events :: nat

definition POLLFD_T_EVENTFD :: nat where "POLLFD_T_EVENTFD = 0"
definition POLLFD_T_SOCKET :: nat where "POLLFD_T_SOCKET = 1"
definition POLLFD_T_MAX :: nat where "POLLFD_T_MAX = 2"

definition EVT_BASE :: u32 where "EVT_BASE = 0x1000"
definition EVT_TIMER_OUT :: u32 where "EVT_TIMER_OUT = 0x1001"
definition EVT_WIFI_STA_START :: u32 where "EVT_WIFI_STA_START = 0x1002"
definition EVT_WIFI_CONNECTED :: u32 where "EVT_WIFI_CONNECTED = 0x2000"
definition EVT_BLE_START :: u32 where "EVT_BLE_START = 0x2001"

definition POLLIN :: nat where "POLLIN = 1"
definition POLLERR :: nat where "POLLERR = 8"
definition POLLNVAL :: nat where "POLLNVAL = 32"

text \<open>The state of the main loop; \<open>sta_iface\<close> is a pointer, 0 is NULL.\<close>

record evt_st = ble_st +
  evt_list :: "evt_msg list"
  g_fds :: "pollfd list"
  sta_iface :: int

definition fd_of :: "nat \<Rightarrow> 'a evt_st_scheme \<Rightarrow> int" where
  "fd_of i s = pfd_fd (g_fds s ! i)"

text \<open>
  \<open>evt_send\<close> up to the unlock and behind it. \<open>sizeof(struct evt_msg)\<close> is 16. The result of
  \<open>k_malloc\<close> is not checked: \<open>False\<close> is the store through NULL.
\<close>

definition evt_append :: "env \<Rightarrow> evt_msg \<Rightarrow> ('a evt_st_scheme, bool) state" where
  "evt_append env msg = do {
     p \<leftarrow> ext env (Kern (KMalloc 16));
     (if r_rc p = 0 then State_Monad.return False
      else do {
        _ \<leftarrow> modify (evt_list_update (\<lambda>l. l @ [msg]));
        State_Monad.return True
      })
   }"

definition evt_notify :: "env \<Rightarrow> ('a evt_st_scheme, int) state" where
  "evt_notify env = do {
     fd \<leftarrow> get_field (fd_of POLLFD_T_EVENTFD);
     (if fd \<ge> 0 then do {
        _ \<leftarrow> ext_posix env (Kern (EventfdWrite fd 1));
        State_Monad.return 0
      } else State_Monad.return 0)
   }"

definition event :: "u32 \<Rightarrow> evt_msg" where
  "event type = \<lparr>msg_type = type, msg_len = 0, msg_data = 0\<rparr>"

definition evt_send :: "env \<Rightarrow> evt_msg \<Rightarrow> ('a evt_st_scheme, int option) state" where
  "evt_send env msg = do {
     ok \<leftarrow> evt_append env msg;
     (if \<not> ok then State_Monad.return None
      else do { r \<leftarrow> evt_notify env; State_Monad.return (Some r) })
   }"

text \<open>\<open>evt_init\<close>; \<open>None\<close> is the endless sleep after a failed \<open>eventfd\<close>.\<close>

definition evt_init :: "env \<Rightarrow> ('a evt_st_scheme, unit option) state" where
  "evt_init env = do {
     _ \<leftarrow> modify (evt_list_update (\<lambda>_. []));
     evfd \<leftarrow> ext_posix env (Kern Eventfd);
     (if r_rc evfd < 0 then State_Monad.return None
      else do {
        _ \<leftarrow> modify (g_fds_update (\<lambda>f. f[POLLFD_T_EVENTFD := \<lparr>pfd_fd = r_rc evfd, pfd_events = POLLIN\<rparr>]));
        State_Monad.return (Some ())
      })
   }"

text \<open>One round of the timer thread (which nothing starts).\<close>

definition timer_looper_round :: "env \<Rightarrow> ('a evt_st_scheme, int option) state" where
  "timer_looper_round env = do {
     _ \<leftarrow> ext env (Kern (KSleepMs (10 * 1000)));
     evt_send env (event EVT_TIMER_OUT)
   }"

text \<open>
  The station. A management event is its code and the status that comes with it, which the
  handler does not look at. SSID and password are configuration.
\<close>

datatype mgmt_event =
    NET_EVENT_WIFI_CONNECT_RESULT int
  | NET_EVENT_WIFI_DISCONNECT_RESULT int
  | NetEventOther

definition wifi_event_handler :: "env \<Rightarrow> mgmt_event \<Rightarrow> ('a evt_st_scheme, int option) state" where
  "wifi_event_handler env ev = (case ev of
     NET_EVENT_WIFI_CONNECT_RESULT status \<Rightarrow> evt_send env (event EVT_WIFI_CONNECTED)
   | NET_EVENT_WIFI_DISCONNECT_RESULT status \<Rightarrow> State_Monad.return (Some 0)
   | NetEventOther \<Rightarrow> State_Monad.return (Some 0))"

definition sta_config :: "cstr \<Rightarrow> cstr \<Rightarrow> wifi_params" where
  "sta_config CONFIG_SSID CONFIG_PSK =
     \<lparr>wifi_ssid = CONFIG_SSID, wifi_psk = CONFIG_PSK, wifi_security = WIFI_SECURITY_TYPE_PSK,
      wifi_channel = WIFI_CHANNEL_ANY, wifi_band = WIFI_FREQ_BAND_2_4_GHZ\<rparr>"

definition connect_to_wifi :: "env \<Rightarrow> cstr \<Rightarrow> cstr \<Rightarrow> ('a evt_st_scheme, int) state" where
  "connect_to_wifi env CONFIG_SSID CONFIG_PSK = do {
     iface \<leftarrow> get_field sta_iface;
     (if iface = 0 then State_Monad.return (- EIO)
      else do {
        r \<leftarrow> ext env (Net (NetWifiConnect (sta_config CONFIG_SSID CONFIG_PSK)));
        State_Monad.return (r_rc r)
      })
   }"

definition sta_tryconnect :: "env \<Rightarrow> cstr \<Rightarrow> cstr \<Rightarrow> ('a evt_st_scheme, int) state" where
  "sta_tryconnect env CONFIG_SSID CONFIG_PSK = do {
     _ \<leftarrow> ext env (Net NetMgmtAddCallback);
     iface \<leftarrow> ext env (Net NetIfGetWifiSta);
     _ \<leftarrow> modify (sta_iface_update (\<lambda>_. r_rc iface));
     ret \<leftarrow> connect_to_wifi env CONFIG_SSID CONFIG_PSK;
     (if ret \<noteq> 0 then State_Monad.return (- 1) else State_Monad.return 0)
   }"

text \<open>
  Handling. The configuration of the build is a record: whether the network is built in,
  whether settings are, and the strings.
\<close>

record config =
  sta_network_en :: bool
  config_settings :: bool
  config_ssid :: cstr
  config_psk :: cstr

definition evt_dispatch :: "env \<Rightarrow> config \<Rightarrow> evt_msg \<Rightarrow> ('a evt_st_scheme, unit) state" where
  "evt_dispatch env cfg msg =
     (if msg_type msg = EVT_TIMER_OUT then
        (if sta_network_en cfg then do {
           sock \<leftarrow> get_field (fd_of POLLFD_T_SOCKET);
           (if sock > 0 then wscli_ping env sock else State_Monad.return ())
         } else State_Monad.return ())
      else if msg_type msg = EVT_WIFI_STA_START then
        (if sta_network_en cfg then do {
           _ \<leftarrow> sta_tryconnect env (config_ssid cfg) (config_psk cfg);
           State_Monad.return ()
         } else State_Monad.return ())
      else if msg_type msg = EVT_WIFI_CONNECTED \<or> msg_type msg = EVT_BLE_START then do {
        _ \<leftarrow> ble_rc_init env (config_settings cfg);
        State_Monad.return ()
      }
      else State_Monad.return ())"

text \<open>One turn of the loop of \<open>evt_handle\<close>, over the function that handles a message.\<close>

definition evt_take :: "('a evt_st_scheme, evt_msg option) state" where
  "evt_take = do {
     l \<leftarrow> get_field evt_list;
     (case l of
        [] \<Rightarrow> State_Monad.return None
      | msg # rest \<Rightarrow> do {
          _ \<leftarrow> modify (evt_list_update (\<lambda>_. rest));
          State_Monad.return (Some msg)
        })
   }"

definition evt_handle_body ::
    "env \<Rightarrow> (evt_msg \<Rightarrow> ('a evt_st_scheme, unit) state) \<Rightarrow> unit \<Rightarrow> ('a evt_st_scheme, unit + unit) state" where
  "evt_handle_body env handler _ = do {
     node \<leftarrow> evt_take;
     (case node of
        None \<Rightarrow> State_Monad.return (Inl ())
      | Some msg \<Rightarrow> do {
          _ \<leftarrow> handler msg;
          _ \<leftarrow> ext env (Kern KFree);
          State_Monad.return (Inr ())
        })
   }"

definition evt_handle :: "env \<Rightarrow> config \<Rightarrow> nat \<Rightarrow> ('a evt_st_scheme, unit option) state" where
  "evt_handle env cfg fuel = loop_fuel fuel (evt_handle_body env (evt_dispatch env cfg)) ()"

section \<open>Draining the queue\<close>

text \<open>
  What the loop relies on: handling a message leaves the queue to those who send. Then the
  loop handles what is in the queue in order, each message once, and frees it.
\<close>

fun handle_all ::
    "env \<Rightarrow> (evt_msg \<Rightarrow> ('a evt_st_scheme, unit) state) \<Rightarrow> evt_msg list \<Rightarrow> ('a evt_st_scheme, unit) state" where
  "handle_all env handler [] = State_Monad.return ()"
| "handle_all env handler (msg # msgs) = do {
     _ \<leftarrow> handler msg;
     _ \<leftarrow> ext env (Kern KFree);
     handle_all env handler msgs
   }"

locale evt_handlers =
  fixes env :: env
    and handler :: "evt_msg \<Rightarrow> ('a evt_st_scheme, unit) state"
  assumes queue_free: "commutes (evt_list_update (\<lambda>_. l)) (handler msg)"
begin

lemma handle_all_free: "commutes (evt_list_update (\<lambda>_. l)) (handle_all env handler msgs)"
  by (induction msgs) (auto intro!: comm_rules queue_free)

lemma drains:
  "length (evt_list s) < fuel \<Longrightarrow>
   run_state (loop_fuel fuel (evt_handle_body env handler) ()) s =
     (Some (), (final (handle_all env handler (evt_list s)) s)\<lparr>evt_list := []\<rparr>)"
proof (induction "evt_list s" arbitrary: s fuel)
  case Nil
  then obtain n where "fuel = Suc n" by (cases fuel) auto
  with Nil show ?case
    by (auto simp: evt_handle_body_def evt_take_def run_eval final_def)
next
  case (Cons m ms)
  from Cons.hyps(2) [symmetric] Cons.prems obtain n where n: "fuel = Suc n" "length ms < n"
    by (cases fuel) auto
  obtain x t where h: "run_state (handler m) s = (x, t)" by (cases "run_state (handler m) s")
  define q where "q = env (trace t) (Kern KFree)"
  define t' where "t' = t\<lparr>trace := trace t @ [(Kern KFree, q)]\<rparr>"
  have "run_state (evt_handle_body env handler ()) s = (Inr (), t'\<lparr>evt_list := ms\<rparr>)"
    using Cons.hyps(2) [symmetric] commutesD [OF queue_free h, of ms]
    by (simp add: evt_handle_body_def evt_take_def run_eval t'_def q_def)
  moreover have "run_state (loop_fuel n (evt_handle_body env handler) ()) (t'\<lparr>evt_list := ms\<rparr>) =
      (Some (), (final (handle_all env handler ms) (t'\<lparr>evt_list := ms\<rparr>))\<lparr>evt_list := []\<rparr>)"
    using Cons.hyps(1) [of "t'\<lparr>evt_list := ms\<rparr>" n] n(2) by simp
  moreover have "(final (handle_all env handler ms) (t'\<lparr>evt_list := ms\<rparr>))\<lparr>evt_list := []\<rparr> =
      (final (handle_all env handler ms) t')\<lparr>evt_list := []\<rparr>"
    using commutesD [OF handle_all_free run_result, of ms ms t'] by (simp add: final_def)
  moreover have "final (handle_all env handler (m # ms)) s = final (handle_all env handler ms) t'"
    using h by (simp add: final_def run_eval t'_def q_def)
  ultimately show ?case
    using n(1) Cons.hyps(2) [symmetric] by (simp add: run_eval)
qed

end

lemma evt_dispatch_free: "commutes (evt_list_update (\<lambda>_. l)) (evt_dispatch env cfg msg)"
  unfolding evt_dispatch_def wscli_ping_def sta_tryconnect_def connect_to_wifi_def ble_rc_init_def
    fix_uuid_data_def set_public_addr_eq Let_def
  by (intro comm_rules) (simp_all add: fd_of_def split: option.split)

interpretation dispatch: evt_handlers env "evt_dispatch env cfg"
  by unfold_locales (rule evt_dispatch_free)

section \<open>Properties\<close>

text \<open>
  C8: The loop of \<open>evt_handle\<close> ends, with the queue empty, and has done exactly what handling the
  queued messages one after the other does: in order of arrival, each once, and each freed
  after it was handled.
\<close>

theorem evt_handle_drains:
  assumes "length (evt_list s) < fuel"
  shows "run_state (evt_handle env cfg fuel) s =
    (Some (), (final (handle_all env (evt_dispatch env cfg) (evt_list s)) s)\<lparr>evt_list := []\<rparr>)"
  unfolding evt_handle_def by (rule dispatch.drains [OF assms])

definition evt0 :: evt_st where
  "evt0 = ble_st.extend ble0 \<lparr>evt_list = [], g_fds = [\<lparr>pfd_fd = 0, pfd_events = 0\<rparr>, \<lparr>pfd_fd = 0, pfd_events = 0\<rparr>],
     sta_iface = 0\<rparr>"

definition net_cfg :: config where
  "net_cfg = \<lparr>sta_network_en = True, config_settings = True, config_ssid = ''ap'', config_psk = ''secret''\<rparr>"

theorem evt_handle_drains_witness:
  "result (evt_handle (sim_env []) net_cfg 3) (evt0\<lparr>evt_list := [event EVT_TIMER_OUT, event EVT_BLE_START]\<rparr>) = Some ()"
  unfolding result_def by (subst evt_handle_drains) simp_all

section \<open>Initialisation repeated\<close>

text \<open>The calls to \<open>bt_enable\<close> and \<open>bt_id_create\<close> a trace shows.\<close>

fun is_enable :: "event \<Rightarrow> bool" where
  "is_enable (Bt BtEnable, r) = True"
| "is_enable _ = False"

definition enables :: "event list \<Rightarrow> nat" where
  "enables tr = length (filter is_enable tr)"

lemma enables_append [simp]: "enables (xs @ ys) = enables xs + enables ys"
  by (simp add: enables_def)

lemma enables_Cons [simp]: "enables (e # es) = (if is_enable e then Suc (enables es) else enables es)"
  by (simp add: enables_def)

lemma enables_Nil [simp]: "enables [] = 0"
  by (simp add: enables_def)

fun is_id_create :: "event \<Rightarrow> bool" where
  "is_id_create (Bt (BtIdCreate a), r) = True"
| "is_id_create _ = False"

definition identities :: "event list \<Rightarrow> nat" where
  "identities tr = length (filter is_id_create tr)"

lemma identities_simps [simp]:
  "identities (xs @ ys) = identities xs + identities ys"
  "identities (e # es) = (if is_id_create e then Suc (identities es) else identities es)"
  "identities [] = 0"
  by (simp_all add: identities_def)

text \<open>The messages that start Bluetooth: each runs \<open>ble_rc_init\<close> again.\<close>

definition starts_ble :: "evt_msg \<Rightarrow> bool" where
  "starts_ble msg \<longleftrightarrow> msg_type msg = EVT_WIFI_CONNECTED \<or> msg_type msg = EVT_BLE_START"

text \<open>What it does to a state with sixteen bytes of data, and with the six of them swapped or not.\<close>

definition inits :: "nat \<Rightarrow> byte list \<Rightarrow> 'a evt_st_scheme \<Rightarrow> 'a evt_st_scheme \<Rightarrow> bool" where
  "inits k u s t \<longleftrightarrow> enables (trace t) = enables (trace s) + k \<and> identities (trace t) = identities (trace s) + k \<and>
     Some (uuid_data t) = (if even k then Some u else swap_addr u 9)"

lemma init_effect:
  assumes "run_state (ble_rc_init env c) s = (r, t)"
  shows "enables (trace t) = Suc (enables (trace s))" and "identities (trace t) = Suc (identities (trace s))"
  using assms unfolding ble_rc_init_def fix_uuid_data_def set_public_addr_eq
  by (auto simp: run_iff split: option.splits)

lemma dispatch_effect:
  assumes "run_state (evt_dispatch env cfg msg) s = (x, t)"
  shows "enables (trace t) = enables (trace s) + (if starts_ble msg then 1 else 0)"
    and "identities (trace t) = identities (trace s) + (if starts_ble msg then 1 else 0)"
    and "length (uuid_data s) = 16 \<Longrightarrow>
      Some (uuid_data t) = (if starts_ble msg then swap_addr (uuid_data s) 9 else Some (uuid_data s))"
proof -
  have "enables (trace t) = enables (trace s) + (if starts_ble msg then 1 else 0) \<and>
    identities (trace t) = identities (trace s) + (if starts_ble msg then 1 else 0) \<and>
    (length (uuid_data s) = 16 \<longrightarrow>
      Some (uuid_data t) = (if starts_ble msg then swap_addr (uuid_data s) 9 else Some (uuid_data s)))"
  proof (cases "starts_ble msg")
    case True
    then have "msg_type msg \<noteq> EVT_TIMER_OUT" "msg_type msg \<noteq> EVT_WIFI_STA_START"
      by (auto simp: starts_ble_def EVT_TIMER_OUT_def EVT_WIFI_STA_START_def EVT_WIFI_CONNECTED_def EVT_BLE_START_def)
    with True obtain r where r: "run_state (ble_rc_init env (config_settings cfg)) s = (r, t)"
      using assms by (auto simp: evt_dispatch_def starts_ble_def run_iff)
    from swap_addr_twice [of "uuid_data s"] ble_rc_init_uuid [OF r] init_effect [OF r] True show ?thesis
      by (auto split: option.splits)
  next
    case False
    with assms show ?thesis
      unfolding evt_dispatch_def starts_ble_def wscli_ping_def sta_tryconnect_def connect_to_wifi_def
      by (auto simp: run_iff split: if_splits)
  qed
  then show "enables (trace t) = enables (trace s) + (if starts_ble msg then 1 else 0)"
    and "identities (trace t) = identities (trace s) + (if starts_ble msg then 1 else 0)"
    and "length (uuid_data s) = 16 \<Longrightarrow>
      Some (uuid_data t) = (if starts_ble msg then swap_addr (uuid_data s) 9 else Some (uuid_data s))" by blast+
qed

lemma handle_all_inits:
  assumes "length u = 16" and "inits j u s s'"
  shows "inits (j + length (filter starts_ble msgs)) u s (final (handle_all env (evt_dispatch env cfg) msgs) s')"
  using assms(2)
proof (induction msgs arbitrary: s' j)
  case Nil
  then show ?case by (simp add: final_def run_eval)
next
  case (Cons m ms)
  obtain v where v: "swap_addr u 9 = Some v" "length v = 16" "swap_addr v 9 = Some u"
    using swap_addr_twice [OF assms(1)] by blast
  with Cons.prems assms(1) have u: "length (uuid_data s') = 16" "uuid_data s' = (if even j then u else v)"
    by (auto simp: inits_def split: if_splits)
  obtain t where t: "run_state (evt_dispatch env cfg m) s' = ((), t)"
    by (metis old.unit.exhaust surj_pair)
  define t' where "t' = t\<lparr>trace := trace t @ [(Kern KFree, env (trace t) (Kern KFree))]\<rparr>"
  have "inits (j + (if starts_ble m then 1 else 0)) u s t'"
    using Cons.prems dispatch_effect [OF t] u v by (auto simp: inits_def t'_def split: if_splits)
  from Cons.IH [OF this] have
    "inits (j + (if starts_ble m then 1 else 0) + length (filter starts_ble ms)) u s
      (final (handle_all env (evt_dispatch env cfg) ms) t')" .
  moreover have "final (handle_all env (evt_dispatch env cfg) (m # ms)) s' = final (handle_all env (evt_dispatch env cfg) ms) t'"
    using t by (simp add: final_def run_eval t'_def)
  ultimately show ?case by (auto split: if_splits)
qed



end
