(* ===== verification/MainLoop.thy ===== *)
theory MainLoop
  imports EvtQueue RpcRoute Upgrade
begin

text \<open>
  The main thread of \<open>src/main.c\<close>: boot, the poll loop over eventfd and websocket, and the
  functions on the websocket. A value of type \<open>stop\<close> is an execution without a result:
  still running with this fuel (or asleep for ever), or past an undefined access.
\<close>

section \<open>Definitions\<close>

datatype stop = Running | Undefined

definition MAX_RECV_BUF_LEN :: u32 where
  "MAX_RECV_BUF_LEN = 1024"

definition set_fd :: "nat \<Rightarrow> pollfd \<Rightarrow> 'a evt_st_scheme \<Rightarrow> 'a evt_st_scheme" where
  "set_fd i p s = s\<lparr>g_fds := (g_fds s)[i := p]\<rparr>"

text \<open>Only the descriptor is replaced.\<close>

definition put_fd :: "nat \<Rightarrow> int \<Rightarrow> 'a evt_st_scheme \<Rightarrow> 'a evt_st_scheme" where
  "put_fd i fd s = s\<lparr>g_fds := (g_fds s)[i := (g_fds s ! i)\<lparr>pfd_fd := fd\<rparr>]\<rparr>"

text \<open>The functions on the websocket; nothing calls the first and the third.\<close>

definition try_connect_ws :: "env \<Rightarrow> bool \<Rightarrow> cstr \<Rightarrow> ('a evt_st_scheme, int) state" where
  "try_connect_ws env ipv4 server = do {
     _ \<leftarrow> wscli_init env ipv4 server;
     websock \<leftarrow> wscli_getsock;
     (if websock < 0 then State_Monad.return (- 1)
      else do {
        _ \<leftarrow> modify (set_fd POLLFD_T_SOCKET \<lparr>pfd_fd = websock, pfd_events = POLLIN\<rparr>);
        State_Monad.return 0
      })
   }"

definition ws_msg_handle :: "env \<Rightarrow> json_parser \<Rightarrow> byte list \<Rightarrow> ('a evt_st_scheme, unit option) state" where
  "ws_msg_handle env parse msg = rpc_execute env parse msg"

definition send_msg_to_ws :: "env \<Rightarrow> byte list \<Rightarrow> ('a evt_st_scheme, bool) state" where
  "send_msg_to_ws env data = do {
     sock \<leftarrow> get_field (fd_of POLLFD_T_SOCKET);
     (if sock < 0 then State_Monad.return False
      else do {
        ret \<leftarrow> wscli_send env sock data;
        State_Monad.return (ret > 0)
      })
   }"

text \<open>
  \<open>poll_loop\<close>. \<open>p_fds\<close> holds the valid descriptors, packed; the ready bits come in the same
  order. The code then indexes it by descriptor type: an index behind its end is an
  uninitialised element.
\<close>

definition packed :: "pollfd list \<Rightarrow> (int \<times> nat) list" where
  "packed fds = map (\<lambda>f. (pfd_fd f, pfd_events f)) (filter (\<lambda>f. pfd_fd f \<ge> 0) fds)"

definition revents :: "reply \<Rightarrow> nat \<Rightarrow> nat" where
  "revents r i = (if i < length (r_revents r) then r_revents r ! i else 0)"

text \<open>The part on the socket: a result to return at once, or \<open>None\<close> to go on.\<close>

definition poll_socket ::
    "env \<Rightarrow> json_parser \<Rightarrow> nat \<Rightarrow> (int \<times> nat) list \<Rightarrow> reply \<Rightarrow> ('a evt_st_scheme, stop + int option) state" where
  "poll_socket env parse fuel p_fds r = do {
     sock \<leftarrow> get_field (fd_of POLLFD_T_SOCKET);
     (if sock < 0 then State_Monad.return (Inr None)
      else if length p_fds \<le> POLLFD_T_SOCKET then State_Monad.return (Inl Undefined)
      else let ev = revents r POLLFD_T_SOCKET in
        if and ev POLLNVAL \<noteq> 0 then State_Monad.return (Inr (Some (- EBADF)))
        else if and ev POLLERR \<noteq> 0 then State_Monad.return (Inr (Some (- EIO)))
        else if and ev POLLIN \<noteq> 0 then do {
          got \<leftarrow> wscli_recv env fuel (fst (p_fds ! POLLFD_T_SOCKET)) MAX_RECV_BUF_LEN;
          (case got of
             None \<Rightarrow> State_Monad.return (Inl Running)
           | Some rd \<Rightarrow>
               if fst rd < 0 then do {
                 _ \<leftarrow> modify (put_fd POLLFD_T_SOCKET (- 1));
                 State_Monad.return (Inr (Some 0))
               } else do {
                 x \<leftarrow> ws_msg_handle env parse (snd rd);
                 State_Monad.return (case x of None \<Rightarrow> Inl Undefined | Some _ \<Rightarrow> Inr None)
               })
        }
        else State_Monad.return (Inr None))
   }"

text \<open>The part on the eventfd: reading it, then handling the queue.\<close>

definition poll_ready ::
    "env \<Rightarrow> (int \<times> nat) list \<Rightarrow> reply \<Rightarrow> ('a evt_st_scheme, bool) state" where
  "poll_ready env p_fds r = do {
     evfd \<leftarrow> get_field (fd_of POLLFD_T_EVENTFD);
     (if evfd \<ge> 0 \<and> revents r POLLFD_T_EVENTFD \<noteq> 0 then do {
        _ \<leftarrow> ext_posix env (Kern (EventfdRead (fst (p_fds ! POLLFD_T_EVENTFD))));
        State_Monad.return True
      } else State_Monad.return False)
   }"

definition poll_event ::
    "env \<Rightarrow> config \<Rightarrow> nat \<Rightarrow> (int \<times> nat) list \<Rightarrow> reply \<Rightarrow> ('a evt_st_scheme, stop + int) state" where
  "poll_event env cfg fuel p_fds r = do {
     ready \<leftarrow> poll_ready env p_fds r;
     (if ready then do {
        h \<leftarrow> evt_handle env cfg fuel;
        State_Monad.return (case h of None \<Rightarrow> Inl Running | Some _ \<Rightarrow> Inr 0)
      } else State_Monad.return (Inr 0))
   }"

definition poll_wait :: "env \<Rightarrow> ('a evt_st_scheme, (int \<times> nat) list \<times> reply) state" where
  "poll_wait env = do {
     fds \<leftarrow> get_field g_fds;
     let p_fds = packed fds;
     r \<leftarrow> ext_posix env (Kern (Poll p_fds (30 * 1000)));
     State_Monad.return (p_fds, r)
   }"

definition poll_loop ::
    "env \<Rightarrow> config \<Rightarrow> json_parser \<Rightarrow> nat \<Rightarrow> ('a evt_st_scheme, stop + int) state" where
  "poll_loop env cfg parse fuel = do {
     (p_fds, r) \<leftarrow> poll_wait env;
     (if r_rc r < 0 then State_Monad.return (Inr (r_rc r))
      else if r_rc r = 0 then State_Monad.return (Inr (- EAGAIN))
      else do {
        s \<leftarrow> (if sta_network_en cfg then poll_socket env parse fuel p_fds r
              else State_Monad.return (Inr None));
        (case s of
           Inl stop \<Rightarrow> State_Monad.return (Inl stop)
         | Inr early \<Rightarrow> (case early of
             Some ret \<Rightarrow> State_Monad.return (Inr ret)
           | None \<Rightarrow> poll_event env cfg fuel p_fds r))
      })
   }"

text \<open>Boot, up to the endless loop, and \<open>n\<close> turns of the loop.\<close>

definition first_event :: "config \<Rightarrow> evt_msg" where
  "first_event cfg = event (if sta_network_en cfg then EVT_WIFI_STA_START else EVT_BLE_START)"

definition main_boot :: "env \<Rightarrow> config \<Rightarrow> nat \<Rightarrow> ('a evt_st_scheme, stop + unit) state" where
  "main_boot env cfg fuel = do {
     _ \<leftarrow> ext env (Kern (KSleepMs 1000));
     _ \<leftarrow> upgrade_check_image env;
     f \<leftarrow> fatfs_init env fuel;
     (case f of
        None \<Rightarrow> State_Monad.return (Inl Running)
      | Some _ \<Rightarrow> do {
          _ \<leftarrow> modify (put_fd POLLFD_T_EVENTFD (- 1));
          _ \<leftarrow> modify (put_fd POLLFD_T_SOCKET (- 1));
          i \<leftarrow> evt_init env;
          (case i of
             None \<Rightarrow> State_Monad.return (Inl Running)
           | Some _ \<Rightarrow> do {
               e \<leftarrow> evt_send env (first_event cfg);
               State_Monad.return (case e of None \<Rightarrow> Inl Undefined | Some _ \<Rightarrow> Inr ())
             })
        })
   }"

definition main_turn ::
    "env \<Rightarrow> config \<Rightarrow> json_parser \<Rightarrow> nat \<Rightarrow> unit \<Rightarrow> ('a evt_st_scheme, stop + unit) state" where
  "main_turn env cfg parse fuel _ = do {
     p \<leftarrow> poll_loop env cfg parse fuel;
     (case p of
        Inl stop \<Rightarrow> State_Monad.return (Inl stop)
      | Inr _ \<Rightarrow> do {
          _ \<leftarrow> ext env (Kern (KSleepMs 250));
          State_Monad.return (Inr ())
        })
   }"

text \<open>\<open>Inl\<close> is an abnormal end; after \<open>n\<close> turns of the endless loop it is still running.\<close>

definition main_thread ::
    "env \<Rightarrow> config \<Rightarrow> json_parser \<Rightarrow> nat \<Rightarrow> nat \<Rightarrow> ('a evt_st_scheme, stop) state" where
  "main_thread env cfg parse fuel n = do {
     b \<leftarrow> main_boot env cfg fuel;
     (case b of
        Inl stop \<Rightarrow> State_Monad.return stop
      | Inr _ \<Rightarrow> do {
          l \<leftarrow> loop_fuel n (main_turn env cfg parse fuel) ();
          State_Monad.return (case l of None \<Rightarrow> Running | Some stop \<Rightarrow> stop)
        })
   }"

section \<open>Bystanders\<close>

text \<open>
  What handling an event leaves alone: a property of the state that does not depend on the
  calls the handlers make nor on the fields they set. With one that also ignores the queue
  and the freeing of messages, the whole of \<open>evt_handle\<close> leaves it alone.
\<close>

locale bystander =
  fixes J :: "'a evt_st_scheme \<Rightarrow> bool"
  assumes bt: "J s \<Longrightarrow> J (s\<lparr>trace := trace s @ [(Bt c, r)]\<rparr>)"
    and net: "J s \<Longrightarrow> \<not> is_recv (Net n, r) \<Longrightarrow> J (s\<lparr>trace := trace s @ [(Net n, r)]\<rparr>)"
    and fields: "J s \<Longrightarrow> J (s\<lparr>sta_iface := i\<rparr>)" "J s \<Longrightarrow> J (s\<lparr>g_rc_last_paired_addr := a\<rparr>)"
      "J s \<Longrightarrow> J (s\<lparr>g_id := k\<rparr>)" "J s \<Longrightarrow> J (s\<lparr>uuid_data := u\<rparr>)"
      "J s \<Longrightarrow> J (s\<lparr>mem_fault := b\<rparr>)"
begin

lemma init_leaves: "preserves J (ble_rc_init env c)"
  unfolding ble_rc_init_def fix_uuid_data_def set_public_addr_eq
  by (intro pres_rules bt) (auto intro: fields split: option.split)

lemma dispatch_leaves: "preserves J (evt_dispatch env cfg msg)"
  unfolding evt_dispatch_def wscli_ping_def sta_tryconnect_def connect_to_wifi_def
  by (intro pres_rules init_leaves net) (auto intro: fields)

end

locale queue_bystander = bystander +
  assumes queue: "J s \<Longrightarrow> J (s\<lparr>evt_list := l\<rparr>)"
    and free: "J s \<Longrightarrow> J (s\<lparr>trace := trace s @ [(Kern KFree, r)]\<rparr>)"
begin

lemma evt_handle_leaves: "preserves J (evt_handle env cfg fuel)"
  unfolding evt_handle_def evt_handle_body_def evt_take_def
  by (intro pres_rules dispatch_leaves free) (auto intro: queue)

end

section \<open>The descriptors\<close>

text \<open>
  What nothing but boot changes: two descriptors, the eventfd open and the websocket not.
  With it, a number of calls to \<open>recv\<close>.
\<close>

definition fds_ok :: "'a evt_st_scheme \<Rightarrow> bool" where
  "fds_ok s \<longleftrightarrow> length (g_fds s) = 2 \<and> 0 \<le> fd_of POLLFD_T_EVENTFD s \<and> fd_of POLLFD_T_SOCKET s = - 1"

definition fds_recvs :: "nat \<Rightarrow> 'a evt_st_scheme \<Rightarrow> bool" where
  "fds_recvs k s \<longleftrightarrow> fds_ok s \<and> recvs (trace s) = k"

interpretation fds: queue_bystander "fds_recvs k"
  by unfold_locales (auto simp: fds_recvs_def fds_ok_def fd_of_def)

text \<open>With the websocket closed a turn is the part on the eventfd.\<close>

lemma poll_loop_no_socket:
  assumes "fds_ok s"
  shows "run_state (poll_loop env cfg parse fuel) s =
    run_state (do {
      (p_fds, r) \<leftarrow> poll_wait env;
      (if r_rc r < 0 then State_Monad.return (Inr (r_rc r))
       else if r_rc r = 0 then State_Monad.return (Inr (- EAGAIN))
       else poll_event env cfg fuel p_fds r)
    }) s"
proof -
  obtain p r t where w: "run_state (poll_wait env) s = ((p, r), t)" by (metis surj_pair)
  then have "fd_of POLLFD_T_SOCKET t < 0"
    using assms by (auto simp: poll_wait_def run_iff fds_ok_def fd_of_def)
  then show ?thesis
    by (simp add: poll_loop_def run_eval w poll_socket_def)
qed

lemma fds_poll [pres_rules]:
  "preserves (fds_recvs k) (poll_wait env)"
  "preserves (fds_recvs k) (poll_event env cfg fuel p_fds r)"
proof -
  show "preserves (fds_recvs k) (poll_wait env)"
    unfolding poll_wait_def Let_def
    by (intro pres_rules) (simp add: fds_recvs_def fds_ok_def fd_of_def)
  show "preserves (fds_recvs k) (poll_event env cfg fuel p_fds r)"
    unfolding poll_event_def poll_ready_def
    by (intro pres_rules fds.evt_handle_leaves) (simp add: fds_recvs_def fds_ok_def fd_of_def)
qed

lemma poll_loop_fds [pres_rules]: "preserves (fds_recvs k) (poll_loop env cfg parse fuel)"
  unfolding preserves_def
proof (intro allI impI)
  fix s t :: "'a evt_st_scheme" and v
  assume s: "fds_recvs k s" and run: "run_state (poll_loop env cfg parse fuel) s = (v, t)"
  from s have "fds_ok s" by (simp add: fds_recvs_def)
  from run [unfolded poll_loop_no_socket [OF this]] show "fds_recvs k t"
    by (rule preservesD [rotated 2]) (intro pres_rules, rule s)
qed

section \<open>Boot\<close>

text \<open>The value of the eventfd's counter.\<close>

fun efd_after :: "nat \<Rightarrow> event \<Rightarrow> nat" where
  "efd_after c (Kern (EventfdWrite fd n), r) = (if r_rc r = 0 then c + n else c)"
| "efd_after c (Kern (EventfdRead fd), r) = (if r_rc r = 0 then 0 else c)"
| "efd_after c _ = c"

definition efd_count :: "event list \<Rightarrow> nat" where
  "efd_count tr = foldl efd_after 0 tr"

lemma efd_count_append [simp]: "efd_count (tr @ es) = foldl efd_after (efd_count tr) es"
  by (simp add: efd_count_def)

text \<open>Mounting and confirming the image receive nothing and enable nothing.\<close>

definition idle :: "nat \<Rightarrow> nat \<Rightarrow> 'a evt_st_scheme \<Rightarrow> bool" where
  "idle k e s \<longleftrightarrow> recvs (trace s) = k \<and> enables (trace s) = e \<and> length (g_fds s) = 2"

lemma idle_ext:
  "idle k e s \<Longrightarrow> \<not> is_recv (c, r) \<Longrightarrow> \<not> is_enable (c, r) \<Longrightarrow> idle k e (s\<lparr>trace := trace s @ [(c, r)]\<rparr>)"
  by (simp add: idle_def)

lemma boot_idle:
  "preserves (idle k e) (upgrade_check_image env)"
  "preserves (idle k e) (fatfs_init env fuel)"
proof -
  show "preserves (idle k e) (upgrade_check_image env)"
    unfolding upgrade_check_image_def by (intro pres_rules idle_ext) simp_all
  show "preserves (idle k e) (fatfs_init env fuel)"
    unfolding fatfs_init_def lsdir_def lsdir_body_def create_some_entries_def Let_def
    by (intro pres_rules idle_ext) simp_all
qed

lemma main_boot_ready:
  assumes "length (g_fds s) = 2" and "run_state (main_boot env cfg fuel) s = (b, t)"
  shows "recvs (trace t) = recvs (trace s)" and "enables (trace t) = enables (trace s)"
    and "b = Inr u \<Longrightarrow> fds_ok t \<and> evt_list t = [first_event cfg] \<and>
      (\<exists>tr fd r. trace t = tr @ [(Kern (EventfdWrite fd 1), r)] \<and> answers env tr (Kern (EventfdWrite fd 1)) r)"
proof -
  define s1 where "s1 = s\<lparr>trace := trace s @ [(Kern (KSleepMs 1000), env (trace s) (Kern (KSleepMs 1000)))]\<rparr>"
  obtain x s2 where s2: "run_state (upgrade_check_image env) s1 = (x, s2)" by fastforce
  obtain f s3 where s3: "run_state (fatfs_init env fuel) s2 = (f, s3)" by fastforce
  have "idle (recvs (trace s)) (enables (trace s)) s1"
    using assms(1) by (simp add: idle_def s1_def)
  then have i: "idle (recvs (trace s)) (enables (trace s)) s3"
    using preservesD [OF boot_idle(1) _ s2] preservesD [OF boot_idle(2) _ s3] by blast
  obtain s4 where s4: "s4 = put_fd POLLFD_T_SOCKET (- 1) (put_fd POLLFD_T_EVENTFD (- 1) s3)" by blast
  with i have s4': "recvs (trace s4) = recvs (trace s)" "enables (trace s4) = enables (trace s)"
      "length (g_fds s4) = 2" "fd_of POLLFD_T_SOCKET s4 = - 1"
    by (simp_all add: idle_def put_fd_def fd_of_def POLLFD_T_SOCKET_def POLLFD_T_EVENTFD_def)
  have run: "(f = None \<and> t = s3 \<and> b = Inl Running) \<or>
    (f \<noteq> None \<and> run_state (do {
       i \<leftarrow> evt_init env;
       (case i of
          None \<Rightarrow> State_Monad.return (Inl Running)
        | Some _ \<Rightarrow> do {
            e \<leftarrow> evt_send env (first_event cfg);
            State_Monad.return (case e of None \<Rightarrow> Inl Undefined | Some _ \<Rightarrow> Inr ())
          })
     }) s4 = (b, t))"
    using assms(2) s2 s3 unfolding main_boot_def s4
    by (cases f) (simp_all add: run_eval s1_def [symmetric])
  note steps = evt_init_def evt_send_def evt_append_def evt_notify_def
  from run s4' i show "recvs (trace t) = recvs (trace s)" "enables (trace t) = enables (trace s)"
    by (auto simp: run_iff steps idle_def)
  assume "b = Inr u"
  with run s4' show "fds_ok t \<and> evt_list t = [first_event cfg] \<and>
      (\<exists>tr fd r. trace t = tr @ [(Kern (EventfdWrite fd 1), r)] \<and> answers env tr (Kern (EventfdWrite fd 1)) r)"
    by (auto simp: run_iff steps fds_ok_def fd_of_def POLLFD_T_SOCKET_def POLLFD_T_EVENTFD_def)
qed

section \<open>Properties\<close>

text \<open>
  C20: The firmware never reads from the network socket: whatever the platform answers and
  however long the main thread runs, it makes no call to \<open>recv\<close>, so no remote procedure
  call is ever executed. The function that would open the websocket has no caller.
\<close>

theorem websocket_never_read:
  assumes "length (g_fds s) = 2" and "run_state (main_thread env cfg parse fuel n) s = (v, t)"
  shows "recvs (trace t) = recvs (trace s)"
proof -
  obtain b u where b: "run_state (main_boot env cfg fuel) s = (b, u)" by fastforce
  note boot = main_boot_ready [OF assms(1) b]
  have turns: "preserves (fds_recvs k) (loop_fuel n (main_turn env cfg parse fuel) x)" for k x
    unfolding main_turn_def
    by (intro pres_rules) (simp add: fds_recvs_def fds_ok_def fd_of_def)
  show ?thesis
  proof (cases b)
    case (Inl stop)
    with assms(2) b boot(1) show ?thesis by (simp add: main_thread_def run_eval)
  next
    case (Inr x)
    obtain l w where l: "run_state (loop_fuel n (main_turn env cfg parse fuel) ()) u = (l, w)" by fastforce
    from boot(1) boot(3) [OF Inr] have "fds_recvs (recvs (trace s)) u" by (simp add: fds_recvs_def)
    from preservesD [OF turns this l] have "recvs (trace w) = recvs (trace s)"
      by (simp add: fds_recvs_def)
    with assms(2) b l Inr show ?thesis by (simp add: main_thread_def run_eval)
  qed
qed

theorem websocket_never_read_witness:
  "recvs (trace (final (main_thread (sim_env []) net_cfg (\<lambda>_. wakeup_request) 4 3) evt0)) = 0"
  using websocket_never_read [OF _ run_result, of evt0 "sim_env []" net_cfg "\<lambda>_. wakeup_request" 4 3]
  by (simp add: evt0_def ble0_def ble_st.defs)

text \<open>
  The documented behaviour of an eventfd: writing adds to its counter, and a poll whose
  first descriptor is the eventfd reports it ready while the counter is not 0.
\<close>

definition eventfd_works :: "env \<Rightarrow> bool" where
  "eventfd_works env \<longleftrightarrow>
     (\<forall>tr fd n. r_rc (env tr (Kern (EventfdWrite fd n))) = 0) \<and>
     (\<forall>tr p ps ms. 0 < efd_count tr \<longrightarrow>
        0 < r_rc (env tr (Kern (Poll (p # ps) ms))) \<and>
        revents (env tr (Kern (Poll (p # ps) ms))) POLLFD_T_EVENTFD \<noteq> 0)"

lemma packed_ok:
  assumes "fds_ok s"
  shows "\<exists>p. packed (g_fds s) = [p]"
proof -
  from assms obtain a b where "g_fds s = [a, b]" by (auto simp: fds_ok_def length_Suc_conv numeral_2_eq_2)
  with assms show ?thesis
    by (simp add: packed_def fds_ok_def fd_of_def POLLFD_T_SOCKET_def POLLFD_T_EVENTFD_def)
qed

text \<open>A turn of the loop with an event pending drains the queue.\<close>

lemma poll_loop_serves:
  assumes "eventfd_works env" and "fds_ok s" and "0 < efd_count (trace s)" and "length (evt_list s) < fuel"
  shows "\<exists>s'. run_state (poll_loop env cfg parse fuel) s =
      (Inr 0, (final (handle_all env (evt_dispatch env cfg) (evt_list s)) s')\<lparr>evt_list := []\<rparr>) \<and>
    (\<exists>p q. trace s' = trace s @ [p, q] \<and> \<not> is_enable p \<and> \<not> is_enable q) \<and> uuid_data s' = uuid_data s"
proof -
  from packed_ok [OF assms(2)] obtain p where p: "packed (g_fds s) = [p]" by blast
  define c where "c = Kern (Poll [p] (30 * 1000))"
  define r where "r = env (trace s) c"
  define s1 where "s1 = s\<lparr>trace := trace s @ [(c, r)], errno := (if r_rc r < 0 then r_errno r else errno s)\<rparr>"
  have r: "0 < r_rc r" "revents r POLLFD_T_EVENTFD \<noteq> 0"
    using assms(1,3) unfolding eventfd_works_def r_def c_def by blast+
  define c' where "c' = Kern (EventfdRead (fst p))"
  define r' where "r' = env (trace s1) c'"
  define s2 where "s2 = s1\<lparr>trace := trace s1 @ [(c', r')], errno := (if r_rc r' < 0 then r_errno r' else errno s1)\<rparr>"
  have w: "run_state (poll_wait env) s = (([p], r), s1)"
    by (simp add: poll_wait_def run_eval p s1_def r_def c_def Let_def)
  have ok: "0 \<le> fd_of POLLFD_T_EVENTFD s1"
    using assms(2) by (simp add: fds_ok_def fd_of_def s1_def)
  have "run_state (poll_ready env [p] r) s1 = (True, s2)"
    using r(2) ok by (simp add: poll_ready_def run_eval s2_def r'_def c'_def POLLFD_T_EVENTFD_def)
  moreover have "evt_list s2 = evt_list s" "uuid_data s2 = uuid_data s"
    "trace s2 = trace s @ [(c, r), (c', r')]"
    by (simp_all add: s2_def s1_def)
  moreover from this(1) have "run_state (evt_handle env cfg fuel) s2 =
      (Some (), (final (handle_all env (evt_dispatch env cfg) (evt_list s)) s2)\<lparr>evt_list := []\<rparr>)"
    using dispatch.drains [of s2 fuel env cfg] assms(4) by (simp add: evt_handle_def)
  moreover have "\<not> is_enable (c, r)" "\<not> is_enable (c', r')" by (simp_all add: c_def c'_def)
  ultimately show ?thesis
    using r(1) w by (intro exI [of _ s2]) (simp add: poll_loop_no_socket [OF assms(2)] poll_event_def run_eval)
qed

text \<open>
  C19: A build without the network brings the remote up: when boot has succeeded, the first turn
  of the loop enables Bluetooth once, swaps the six bytes of \<open>uuid_data\<close> (which are there in an
  array of sixteen; else the store is a fault) and leaves no event behind, on every platform
  with a working eventfd.
\<close>

theorem boot_enables_ble:
  assumes "length (g_fds s) = 2" and "\<not> sta_network_en cfg" and "eventfd_works env" and "1 < fuel"
    and "run_state (main_boot env cfg fuel) s = (Inr u, t)"
    and "run_state (poll_loop env cfg parse fuel) t = (p, w)"
  shows "p = Inr 0 \<and> evt_list w = [] \<and> enables (trace w) = Suc (enables (trace s)) \<and>
    (case swap_addr (uuid_data t) 9 of None \<Rightarrow> mem_fault w | Some u \<Rightarrow> uuid_data w = u)"
proof -
  note boot = main_boot_ready [OF assms(1,5)]
  from boot(3) [OF refl] have t: "fds_ok t" "evt_list t = [first_event cfg]" by blast+
  from boot(3) [OF refl] obtain tr fd r where wr: "trace t = tr @ [(Kern (EventfdWrite fd 1), r)]"
    and "answers env tr (Kern (EventfdWrite fd 1)) r" by blast
  with assms(3) have "0 < efd_count (trace t)"
    by (simp add: eventfd_works_def answers_def)
  from poll_loop_serves [OF assms(3) t(1) this, of fuel cfg parse] t(2) assms(4) obtain s' where
    run: "run_state (poll_loop env cfg parse fuel) t =
      (Inr 0, (final (handle_all env (evt_dispatch env cfg) [first_event cfg]) s')\<lparr>evt_list := []\<rparr>)"
    and s': "enables (trace s') = enables (trace t)" "uuid_data s' = uuid_data t"
    by auto
  obtain q v where init: "run_state (ble_rc_init env (config_settings cfg)) s' = (q, v)" by fastforce
  then have "enables (trace v) = Suc (enables (trace s'))" by (rule init_effect)
  moreover have "final (handle_all env (evt_dispatch env cfg) [first_event cfg]) s' =
      v\<lparr>trace := trace v @ [(Kern KFree, env (trace v) (Kern KFree))]\<rparr>"
    using init assms(2)
    by (simp add: final_def run_eval evt_dispatch_def first_event_def event_def EVT_TIMER_OUT_def
        EVT_WIFI_STA_START_def EVT_BLE_START_def)
  ultimately show ?thesis
    using run s' boot(2) assms(6) ble_rc_init_uuid [OF init] by (simp split: option.splits)
qed

text \<open>A platform with a working eventfd.\<close>

definition live_env :: env where
  "live_env tr c = (case c of
     Kern (Poll ps ms) \<Rightarrow> if 0 < efd_count tr then (reply_rc 1)\<lparr>r_revents := [1]\<rparr> else reply_rc 0
   | Kern Eventfd \<Rightarrow> reply_rc 5
   | _ \<Rightarrow> sim_env [] tr c)"

lemma live_env_works: "eventfd_works live_env"
  by (simp add: eventfd_works_def live_env_def sim_env_def reply_rc_def revents_def POLLFD_T_EVENTFD_def)

definition ble_cfg :: config where
  "ble_cfg = net_cfg\<lparr>sta_network_en := False\<rparr>"

lemma fatfs_init_live: "\<exists>t. run_state (fatfs_init live_env 3) s = (Some 0, t) \<and> g_fds t = g_fds s"
  for s :: "'a evt_st_scheme"
  by (simp add: fatfs_init_def lsdir_def lsdir_body_def create_some_entries_def buf_strcat_def
      disk_mount_pt_def MAX_PATH_def SOME_REQUIRED_LEN_def SOME_FILE_NAME_def SOME_DIR_NAME_def
      live_env_def sim_env_def reply_rc_def numeral_3_eq_3 run_eval)

theorem boot_enables_ble_witness:
  "result (main_boot live_env ble_cfg 3) evt0 = Inr () \<and>
   enables (trace (final (poll_loop live_env ble_cfg (\<lambda>_. wakeup_request) 3) (final (main_boot live_env ble_cfg 3) evt0))) = 1"
proof -
  have "\<exists>t. run_state (main_boot live_env ble_cfg 3) evt0 = (Inr (), t)"
  proof -
    obtain x s1 where s1: "run_state (do { _ \<leftarrow> ext live_env (Kern (KSleepMs 1000)); upgrade_check_image live_env }) evt0 = (x, s1)"
      by fastforce
    obtain s2 where s2: "run_state (fatfs_init live_env 3) s1 = (Some 0, s2)" using fatfs_init_live by blast
    from s1 s2 show ?thesis
      by (simp add: main_boot_def run_eval evt_init_def evt_send_def evt_append_def evt_notify_def
          live_env_def sim_env_def reply_rc_def split: prod.splits)
  qed
  then have ok: "result (main_boot live_env ble_cfg 3) evt0 = Inr ()" by (auto simp: result_def)
  have "run_state (main_boot live_env ble_cfg 3) evt0 = (Inr (), final (main_boot live_env ble_cfg 3) evt0)"
    by (simp add: run_result ok)
  moreover have "length (g_fds evt0) = 2" "enables (trace evt0) = 0" "\<not> sta_network_en ble_cfg"
    by (simp_all add: evt0_def ble0_def ble_st.defs ble_cfg_def)
  ultimately show ?thesis
    using boot_enables_ble [OF _ _ live_env_works _ _ run_result, of evt0 ble_cfg 3 "()" _ "\<lambda>_. wakeup_request"] ok
    by simp
qed

end
