(* ===== verification/EvtSteps.thy ===== *)
theory EvtSteps
  imports MainLoop
begin

text \<open>
  The senders of events and the main loop interleaved. The mutex of the queue makes
  appending and taking one step each; between appending and writing to the eventfd a
  sender can be overtaken by anybody, and so can the main loop between \<open>poll\<close>, reading the
  eventfd and each message it handles. (A handler and the \<open>k_free\<close> behind it are one step
  with the taking: they do not look at the queue, as \<open>evt_dispatch_free\<close> shows.)
\<close>

section \<open>Definitions\<close>

text \<open>Where the main loop is.\<close>

datatype main_pc =
    AtPoll
  | Polled "(int \<times> nat) list" reply
  | Handling

text \<open>
  The state of the main thread, with a record of the messages that were handled: the function
  that handles a message in the loop is \<open>evt_dispatch\<close> with an entry in it once the dispatch
  has returned. A message that is taken and not dispatched leaves no entry.
\<close>

record log_st = evt_st +
  handled :: "evt_msg list"

definition evt_logged :: "env \<Rightarrow> config \<Rightarrow> evt_msg \<Rightarrow> (log_st, unit) state" where
  "evt_logged env cfg msg = do {
     _ \<leftarrow> evt_dispatch env cfg msg;
     modify (handled_update (\<lambda>h. h @ [msg]))
   }"

abbreviation take_next :: "env \<Rightarrow> config \<Rightarrow> (log_st, unit + unit) state" where
  "take_next env cfg \<equiv> evt_handle_body env (evt_logged env cfg) ()"

text \<open>The system: the main thread and the senders between unlocking and notifying.\<close>

record evt_sys =
  main :: log_st
  pc :: main_pc
  notifying :: "nat \<Rightarrow> bool"

datatype evt_label =
    Append nat evt_msg
  | Notify nat
  | PollReturns
  | ReadEventfd
  | TakeNext

fun evt_act :: "env \<Rightarrow> config \<Rightarrow> evt_label \<Rightarrow> evt_sys \<Rightarrow> evt_sys option" where
  "evt_act env cfg (Append i msg) y =
     (if \<not> notifying y i \<and> result (evt_append env msg) (main y)
      then Some (y\<lparr>main := final (evt_append env msg) (main y), notifying := (notifying y)(i := True)\<rparr>)
      else None)"
| "evt_act env cfg (Notify i) y =
     (if notifying y i
      then Some (y\<lparr>main := final (evt_notify env) (main y), notifying := (notifying y)(i := False)\<rparr>)
      else None)"
| "evt_act env cfg PollReturns y = (case pc y of
     AtPoll \<Rightarrow>
       (let (p_fds, r) = result (poll_wait env) (main y)
        in Some (y\<lparr>main := final (poll_wait env) (main y), pc := (if r_rc r > 0 then Polled p_fds r else AtPoll)\<rparr>))
   | _ \<Rightarrow> None)"
| "evt_act env cfg ReadEventfd y = (case pc y of
     Polled p_fds r \<Rightarrow>
       Some (y\<lparr>main := final (poll_ready env p_fds r) (main y),
               pc := (if result (poll_ready env p_fds r) (main y) then Handling else AtPoll)\<rparr>)
   | _ \<Rightarrow> None)"
| "evt_act env cfg TakeNext y = (case pc y of
     Handling \<Rightarrow>
       Some (y\<lparr>main := final (take_next env cfg) (main y),
               pc := (case result (take_next env cfg) (main y) of Inl _ \<Rightarrow> AtPoll | Inr _ \<Rightarrow> Handling)\<rparr>)
   | _ \<Rightarrow> None)"

inductive evt_step :: "env \<Rightarrow> config \<Rightarrow> evt_sys \<Rightarrow> evt_label \<Rightarrow> evt_sys \<Rightarrow> bool"
  for env cfg where
  step: "evt_act env cfg l y = Some z \<Longrightarrow> evt_step env cfg y l z"

inductive_cases evt_stepE: "evt_step env cfg y l z"

inductive_simps evt_step_iff: "evt_step env cfg y l z"

inductive evt_steps :: "env \<Rightarrow> config \<Rightarrow> evt_sys \<Rightarrow> evt_label list \<Rightarrow> evt_sys \<Rightarrow> bool"
  for env cfg where
  none: "evt_steps env cfg y [] y"
| one: "evt_step env cfg x l y \<Longrightarrow> evt_steps env cfg y ls z \<Longrightarrow> evt_steps env cfg x (l # ls) z"

text \<open>The messages the senders appended in a run, and the steps of the main loop in it.\<close>

definition appended :: "evt_label list \<Rightarrow> evt_msg list" where
  "appended ls = concat (map (\<lambda>l. case l of Append i msg \<Rightarrow> [msg] | _ \<Rightarrow> []) ls)"

definition main_steps :: "evt_label list \<Rightarrow> nat" where
  "main_steps ls = length (filter (\<lambda>l. l \<in> {PollReturns, ReadEventfd, TakeNext}) ls)"

lemma appended_simps [simp]:
  "appended [] = []"
  "appended (l # ls) = (case l of Append i msg \<Rightarrow> msg # appended ls | _ \<Rightarrow> appended ls)"
  by (simp_all add: appended_def split: evt_label.splits)

lemma main_steps_simps [simp]:
  "main_steps [] = 0"
  "main_steps (l # ls) = (if l \<in> {PollReturns, ReadEventfd, TakeNext} then Suc (main_steps ls) else main_steps ls)"
  by (simp_all add: main_steps_def)

text \<open>The system when the loop is entered: nobody is sending.\<close>

definition evt_start :: "evt_sys \<Rightarrow> bool" where
  "evt_start y \<longleftrightarrow> fds_ok (main y) \<and> pc y = AtPoll \<and> (\<forall>i. \<not> notifying y i) \<and>
     (evt_list (main y) \<noteq> [] \<longrightarrow> 0 < efd_count (trace (main y)))"

section \<open>Taking a message\<close>

text \<open>Handling leaves descriptors, counter, the rest of the queue and what was handled alone.\<close>

definition calm :: "nat \<Rightarrow> evt_msg list \<Rightarrow> evt_msg list \<Rightarrow> log_st \<Rightarrow> bool" where
  "calm c l h s \<longleftrightarrow> fds_ok s \<and> efd_count (trace s) = c \<and> evt_list s = l \<and> handled s = h"

interpretation calm: bystander "calm c l h"
  by unfold_locales (auto simp: calm_def fds_ok_def fd_of_def)

definition logs_are :: "evt_msg list \<Rightarrow> evt_msg list \<Rightarrow> log_st \<Rightarrow> bool" where
  "logs_are l h s \<longleftrightarrow> evt_list s = l \<and> handled s = h"

interpretation logs: bystander "logs_are l h"
  by unfold_locales (auto simp: logs_are_def)

text \<open>A step of \<open>evt_handle\<close> takes the first message and dispatches it.\<close>

lemma take_next_cases:
  assumes "run_state (take_next env cfg) s = (x, t)"
  obtains "evt_list s = []" and "t = s" and "x = Inl ()"
  | m ms u q where "evt_list s = m # ms" and "x = Inr ()"
      and "run_state (evt_dispatch env cfg m) (s\<lparr>evt_list := ms\<rparr>) = ((), u)"
      and "t = handled_update (\<lambda>h. h @ [m]) u \<lparr>trace := trace u @ [(Kern KFree, q)]\<rparr>"
  using assms
  by (cases "evt_list s") (auto simp: evt_handle_body_def evt_take_def evt_logged_def run_iff)

lemma take_next_logs:
  assumes "run_state (take_next env cfg) s = (x, t)"
  shows "\<exists>hs. evt_list s = hs @ evt_list t \<and> handled t = handled s @ hs \<and>
    enables (trace t) = enables (trace s) + length (filter starts_ble hs)"
  using assms
proof (cases rule: take_next_cases)
  case 1
  then show ?thesis by simp
next
  case (2 m ms u q)
  have "logs_are ms (handled s) (s\<lparr>evt_list := ms\<rparr>)" by (simp add: logs_are_def)
  from preservesD [OF logs.dispatch_leaves this 2(3)] dispatch_effect(1) [OF 2(3)] 2 show ?thesis
    by (intro exI [of _ "[m]"]) (simp add: logs_are_def)
qed

lemma take_next_calm:
  assumes "fds_ok s" and "run_state (take_next env cfg) s = (x, t)"
  shows "fds_ok t \<and> efd_count (trace t) = efd_count (trace s) \<and> evt_list t = drop 1 (evt_list s) \<and>
    handled t = handled s @ take 1 (evt_list s) \<and> x = (if evt_list s = [] then Inl () else Inr ())"
  using assms(2)
proof (cases rule: take_next_cases)
  case 1
  with assms(1) show ?thesis by simp
next
  case (2 m ms u q)
  have "calm (efd_count (trace s)) ms (handled s) (s\<lparr>evt_list := ms\<rparr>)"
    using assms(1) by (simp add: calm_def fds_ok_def fd_of_def)
  from preservesD [OF calm.dispatch_leaves this 2(3)] 2 show ?thesis
    by (simp add: calm_def fds_ok_def fd_of_def)
qed

section \<open>The invariant\<close>

text \<open>
  A message in the queue is on its way to be noticed: the main loop is handling, the eventfd
  is readable, or a sender has yet to write to it.
\<close>

definition evt_inv :: "evt_sys \<Rightarrow> bool" where
  "evt_inv y \<longleftrightarrow> fds_ok (main y) \<and>
     (evt_list (main y) \<noteq> [] \<longrightarrow>
        pc y = Handling \<or> 0 < efd_count (trace (main y)) \<or> (\<exists>i. notifying y i))"

text \<open>The other operations, one by one.\<close>

definition writes_ok :: "env \<Rightarrow> bool" where
  "writes_ok env \<longleftrightarrow> (\<forall>tr fd n. r_rc (env tr (Kern (EventfdWrite fd n))) = 0)"

lemma evt_append_calm:
  "run_state (evt_append env msg) s = (True, t) \<Longrightarrow> fds_ok s \<Longrightarrow>
    fds_ok t \<and> efd_count (trace t) = efd_count (trace s) \<and> evt_list t = evt_list s @ [msg]"
  by (auto simp: evt_append_def run_iff fds_ok_def fd_of_def)

lemma evt_notify_wakes:
  "run_state (evt_notify env) s = (x, t) \<Longrightarrow> fds_ok s \<Longrightarrow> writes_ok env \<Longrightarrow>
    fds_ok t \<and> 0 < efd_count (trace t) \<and> evt_list t = evt_list s"
  by (auto simp: evt_notify_def run_iff fds_ok_def fd_of_def writes_ok_def answers_def)

lemma poll_wait_calm:
  "run_state (poll_wait env) s = (x, t) \<Longrightarrow> fds_ok s \<Longrightarrow>
    fds_ok t \<and> efd_count (trace t) = efd_count (trace s) \<and> evt_list t = evt_list s"
  by (auto simp: poll_wait_def run_iff fds_ok_def fd_of_def)

lemma poll_ready_calm:
  "run_state (poll_ready env p r) s = (x, t) \<Longrightarrow> fds_ok s \<Longrightarrow>
    fds_ok t \<and> evt_list t = evt_list s \<and> (x \<or> efd_count (trace t) = efd_count (trace s))"
  by (auto simp: poll_ready_def run_iff fds_ok_def fd_of_def)

lemma evt_inv_step:
  assumes "evt_inv y" and "evt_step env cfg y l z" and "writes_ok env"
  shows "evt_inv z"
proof -
  from assms(2) have act: "evt_act env cfg l y = Some z" by (rule evt_stepE)
  from assms(1) have ok: "fds_ok (main y)" by (simp add: evt_inv_def)
  show ?thesis
  proof (cases l)
    case (Append i msg)
    then have "result (evt_append env msg) (main y)" using act by (simp split: if_splits)
    then have "run_state (evt_append env msg) (main y) = (True, final (evt_append env msg) (main y))"
      by (simp add: run_result)
    from evt_append_calm [OF this ok] act assms(1) Append show ?thesis
      by (auto simp: evt_inv_def split: if_splits)
  next
    case (Notify i)
    from evt_notify_wakes [OF run_result ok assms(3)] act assms(1) Notify show ?thesis
      by (auto simp: evt_inv_def split: if_splits)
  next
    case PollReturns
    from poll_wait_calm [OF run_result ok, of env] act assms(1) PollReturns show ?thesis
      by (auto simp: evt_inv_def split: main_pc.splits prod.splits)
  next
    case ReadEventfd
    then obtain p r where pc: "pc y = Polled p r" using act by (auto split: main_pc.splits)
    from poll_ready_calm [OF run_result ok, of env p r] pc act assms(1) ReadEventfd show ?thesis
      by (auto simp: evt_inv_def)
  next
    case TakeNext
    then have pc: "pc y = Handling" using act by (auto split: main_pc.splits)
    from take_next_calm [OF ok run_result, of env cfg] pc act assms(1) TakeNext show ?thesis
      by (cases "evt_list (main y)") (auto simp: evt_inv_def)
  qed
qed

lemma evt_inv_steps:
  assumes "evt_steps env cfg y ls z" and "evt_inv y" and "writes_ok env"
  shows "evt_inv z"
  using assms(1,2) by (induction rule: evt_steps.induct) (auto intro: evt_inv_step assms(3))

lemma evt_inv_start: "evt_start y \<Longrightarrow> evt_inv y"
  by (auto simp: evt_start_def evt_inv_def)

text \<open>Boot ends in such a system, with the first event in the queue.\<close>

lemma boot_starts:
  assumes "length (g_fds s) = 2" and "run_state (main_boot env cfg fuel) s = (Inr u, t)" and "writes_ok env"
  shows "evt_start \<lparr>main = t, pc = AtPoll, notifying = (\<lambda>_. False)\<rparr>"
  using main_boot_ready(3) [OF assms(1,2) refl] assms(3)
  by (auto simp: evt_start_def writes_ok_def answers_def)

section \<open>History\<close>

text \<open>
  Only appending adds to the queue and only dispatching adds to what was handled. (One
  lemma per operation of the others.)
\<close>

lemma other_logs:
  "run_state (evt_append env msg) s = (True, t) \<Longrightarrow>
     evt_list t = evt_list s @ [msg] \<and> handled t = handled s \<and> enables (trace t) = enables (trace s)"
  "run_state (evt_notify env) s = (n, t) \<Longrightarrow>
     evt_list t = evt_list s \<and> handled t = handled s \<and> enables (trace t) = enables (trace s)"
  "run_state (poll_wait env) s = (w, t) \<Longrightarrow>
     evt_list t = evt_list s \<and> handled t = handled s \<and> enables (trace t) = enables (trace s)"
  "run_state (poll_ready env p r) s = (b, t) \<Longrightarrow>
     evt_list t = evt_list s \<and> handled t = handled s \<and> enables (trace t) = enables (trace s)"
  for s :: log_st
  by (auto simp: evt_append_def evt_notify_def poll_wait_def poll_ready_def run_iff)

definition history :: "evt_sys \<Rightarrow> evt_label list \<Rightarrow> evt_sys \<Rightarrow> bool" where
  "history y ls z \<longleftrightarrow> (\<exists>hs. handled (main z) = handled (main y) @ hs \<and>
     hs @ evt_list (main z) = evt_list (main y) @ appended ls \<and>
     enables (trace (main z)) = enables (trace (main y)) + length (filter starts_ble hs))"

lemma history_step:
  assumes "evt_step env cfg y l z"
  shows "history y [l] z"
proof -
  have act: "evt_act env cfg l y = Some z" using assms by (rule evt_stepE)
  show ?thesis
  proof (cases l)
    case (Append i msg)
    then have "result (evt_append env msg) (main y)" using act by (simp split: if_splits)
    then have "run_state (evt_append env msg) (main y) = (True, final (evt_append env msg) (main y))"
      by (simp add: run_result)
    from other_logs(1) [OF this] act Append show ?thesis by (auto simp: history_def split: if_splits)
  next
    case (Notify i)
    with other_logs(2) [OF run_result, where env = env and s = "main y"] act show ?thesis
      by (auto simp: history_def split: if_splits)
  next
    case PollReturns
    with other_logs(3) [OF run_result, where env = env and s = "main y"] act show ?thesis
      by (auto simp: history_def split: main_pc.splits prod.splits)
  next
    case ReadEventfd
    then obtain p r where "pc y = Polled p r" using act by (auto split: main_pc.splits)
    with other_logs(4) [OF run_result, where env = env and p = p and r = r and s = "main y"] act ReadEventfd show ?thesis
      by (auto simp: history_def)
  next
    case TakeNext
    with take_next_logs [OF run_result, where env = env and cfg = cfg and s = "main y"] act show ?thesis
      by (auto simp: history_def split: main_pc.splits)
  qed
qed

lemma history_steps: "evt_steps env cfg y ls z \<Longrightarrow> history y ls z"
proof (induction rule: evt_steps.induct)
  case (none y)
  then show ?case by (simp add: history_def)
next
  case (one x l y ls z)
  have "appended (l # ls) = appended [l] @ appended ls" by (simp split: evt_label.splits)
  with history_step [OF one(1)] one(3) show ?case
    unfolding history_def by (elim exE) (rule exI [where x = "hs @ hsa" for hs hsa], auto)
qed

section \<open>Progress\<close>

inductive_simps evt_steps_simps: "evt_steps env cfg y [] z" "evt_steps env cfg y (l # ls) z"

lemma evt_steps_append:
  "evt_steps env cfg x (ls @ ks) z \<longleftrightarrow> (\<exists>y. evt_steps env cfg x ls y \<and> evt_steps env cfg y ks z)"
  by (induction ls arbitrary: x) (auto simp: evt_steps_simps)

lemma evt_steps_one: "evt_act env cfg l y = Some z \<Longrightarrow> evt_steps env cfg y [l] z"
  by (auto intro: evt_steps.intros evt_step.intros)

text \<open>The main loop can always take a step, so every run can be continued by it.\<close>

lemma main_never_stuck: "\<exists>l z. l \<in> {PollReturns, ReadEventfd, TakeNext} \<and> evt_act env cfg l y = Some z"
  by (cases "pc y"; cases "result (poll_wait env) (main y)") fastforce+

text \<open>
  The first \<open>n\<close> messages are due when they are handled, the loop is handling, or the eventfd is
  readable. What is due stays so, and each step of the main loop brings it closer: \<open>far\<close> is the
  number of such steps it takes at most.
\<close>

definition due :: "nat \<Rightarrow> evt_sys \<Rightarrow> bool" where
  "due n y \<longleftrightarrow> fds_ok (main y) \<and> n \<le> length (handled (main y)) + length (evt_list (main y)) \<and>
     (n \<le> length (handled (main y)) \<or> pc y = Handling \<or> 0 < efd_count (trace (main y)))"

definition far :: "nat \<Rightarrow> evt_sys \<Rightarrow> nat" where
  "far n y = (if n \<le> length (handled (main y)) then 0
     else n - length (handled (main y)) + (case pc y of
       Handling \<Rightarrow> 0
     | Polled p r \<Rightarrow> if revents r POLLFD_T_EVENTFD \<noteq> 0 then 1 else 3
     | AtPoll \<Rightarrow> 2))"

lemma poll_efd:
  assumes "eventfd_works env" and "fds_ok s" and "0 < efd_count (trace s)" and "result (poll_wait env) s = (q, r)"
  shows "0 < r_rc r \<and> revents r POLLFD_T_EVENTFD \<noteq> 0"
proof -
  obtain p where p: "packed (g_fds s) = [p]" using packed_ok [OF assms(2)] by blast
  from assms(4) have "r = env (trace s) (Kern (Poll [p] (30 * 1000)))"
    by (auto simp: poll_wait_def result_def run_eval Let_def p)
  with assms(1,3) show ?thesis unfolding eventfd_works_def by blast
qed

lemma poll_ready_result:
  "fds_ok s \<Longrightarrow> result (poll_ready env p r) s \<longleftrightarrow> revents r POLLFD_T_EVENTFD \<noteq> 0"
  by (auto simp: poll_ready_def result_def run_eval fds_ok_def)

lemma due_step:
  assumes "due n y" and "evt_step env cfg y l z" and "eventfd_works env"
  shows "due n z \<and> far n z \<le> far n y - main_steps [l]"
proof -
  have act: "evt_act env cfg l y = Some z" using assms(2) by (rule evt_stepE)
  have ok: "fds_ok (main y)" using assms(1) by (simp add: due_def)
  have "writes_ok env" using assms(3) by (simp add: eventfd_works_def writes_ok_def)
  show ?thesis
  proof (cases l)
    case (Append i msg)
    then have "result (evt_append env msg) (main y)" using act by (simp split: if_splits)
    then have "run_state (evt_append env msg) (main y) = (True, final (evt_append env msg) (main y))"
      by (simp add: run_result)
    from evt_append_calm [OF this ok] other_logs(1) [OF this] act assms(1) Append show ?thesis
      by (auto simp: due_def far_def split: if_splits)
  next
    case (Notify i)
    from evt_notify_wakes [OF run_result ok \<open>writes_ok env\<close>] other_logs(2) [OF run_result, where env = env and s = "main y"]
      act assms(1) Notify show ?thesis
      by (auto simp: due_def far_def split: if_splits)
  next
    case PollReturns
    then have pc: "pc y = AtPoll" using act by (auto split: main_pc.splits)
    obtain q r where w: "result (poll_wait env) (main y) = (q, r)" by fastforce
    from poll_efd [OF assms(3) ok _ w] poll_wait_calm [OF run_result ok, of env]
      other_logs(3) [OF run_result, where env = env and s = "main y"] pc w act assms(1) PollReturns show ?thesis
      by (auto simp: due_def far_def)
  next
    case ReadEventfd
    then obtain p r where pc: "pc y = Polled p r" using act by (auto split: main_pc.splits)
    from poll_ready_calm [OF run_result ok, of env p r] poll_ready_result [OF ok, of env p r]
      other_logs(4) [OF run_result, where env = env and p = p and r = r and s = "main y"] pc act assms(1) ReadEventfd show ?thesis
      by (auto simp: due_def far_def)
  next
    case TakeNext
    then have pc: "pc y = Handling" using act by (auto split: main_pc.splits)
    from take_next_calm [OF ok run_result, of env cfg] pc act assms(1) TakeNext show ?thesis
      by (cases "evt_list (main y)") (auto simp: due_def far_def)
  qed
qed

lemma due_steps:
  assumes "evt_steps env cfg y ls z" and "due n y" and "eventfd_works env"
  shows "due n z \<and> far n z \<le> far n y - main_steps ls"
  using assms(1,2)
proof (induction rule: evt_steps.induct)
  case (none y)
  then show ?case by simp
next
  case (one x l y ls z)
  from due_step [OF one.prems one.hyps(1) assms(3)] one.IH show ?case by (auto split: if_splits)
qed

text \<open>A notification makes due what is in the queue.\<close>

lemma due_notified:
  assumes "evt_inv z" and "evt_steps env cfg z ks x" and "eventfd_works env"
    and "\<forall>i. notifying z i \<longrightarrow> Notify i \<in> set ks"
  shows "due (length (handled (main z)) + length (evt_list (main z))) x"
proof (cases "due (length (handled (main z)) + length (evt_list (main z))) z")
  case True
  from due_steps [OF assms(2) this assms(3)] show ?thesis by simp
next
  case False
  let ?n = "length (handled (main z)) + length (evt_list (main z))"
  have w: "writes_ok env" using assms(3) by (simp add: eventfd_works_def writes_ok_def)
  from False assms(1,4) obtain i where "Notify i \<in> set ks" by (auto simp: due_def evt_inv_def)
  then obtain a b where ks: "ks = a @ [Notify i] @ b" by (auto simp: in_set_conv_decomp)
  with assms(2) obtain y1 y2 where a: "evt_steps env cfg z a y1" and i: "evt_steps env cfg y1 [Notify i] y2"
    and b: "evt_steps env cfg y2 b x"
    by (auto simp: evt_steps_append simp del: append.simps)
  have "?n \<le> length (handled (main y1)) + length (evt_list (main y1))"
    using history_steps [OF a] unfolding history_def by (auto dest!: arg_cong [where f = length])
  moreover have ok: "fds_ok (main y1)" using evt_inv_steps [OF a assms(1) w] by (simp add: evt_inv_def)
  moreover have "evt_act env cfg (Notify i) y1 = Some y2"
    using i by (auto simp: evt_steps_simps evt_step_iff)
  ultimately have "due ?n y2"
    using evt_notify_wakes [OF run_result ok w] other_logs(2) [OF run_result, where env = env and s = "main y1"]
    by (auto simp: due_def split: if_splits)
  from due_steps [OF b this assms(3)] show ?thesis by simp
qed

section \<open>Memory\<close>

text \<open>What a message holds on the heap: handlers leave the heap and the queue alone.\<close>

definition heap_queue :: "int \<Rightarrow> evt_msg list \<Rightarrow> 'a evt_st_scheme \<Rightarrow> bool" where
  "heap_queue h l s \<longleftrightarrow> heap_blocks (trace s) = h \<and> evt_list s = l"

interpretation heap_queue: bystander "heap_queue h l"
  by unfold_locales (auto simp: heap_queue_def)

definition unqueued_blocks :: "'a evt_st_scheme \<Rightarrow> int" where
  "unqueued_blocks s = heap_blocks (trace s) - int (length (evt_list s))"

lemma take_next_blocks:
  assumes "run_state (take_next env cfg) s = (x, t)"
  shows "unqueued_blocks t = unqueued_blocks s"
  using assms
proof (cases rule: take_next_cases)
  case 1
  then show ?thesis by simp
next
  case (2 m ms u q)
  have "heap_queue (heap_blocks (trace s)) ms (s\<lparr>evt_list := ms\<rparr>)" by (simp add: heap_queue_def)
  from preservesD [OF heap_queue.dispatch_leaves this 2(3)] 2 show ?thesis
    by (simp add: heap_queue_def unqueued_blocks_def)
qed

lemma other_blocks:
  "run_state (evt_append env msg) s = (True, t) \<Longrightarrow> unqueued_blocks t = unqueued_blocks s"
  "run_state (evt_notify env) s = (n, t) \<Longrightarrow> unqueued_blocks t = unqueued_blocks s"
  "run_state (poll_wait env) s = (w, t) \<Longrightarrow> unqueued_blocks t = unqueued_blocks s"
  "run_state (poll_ready env p r) s = (b, t) \<Longrightarrow> unqueued_blocks t = unqueued_blocks s"
  for s :: log_st
  by (auto simp: evt_append_def evt_notify_def poll_wait_def poll_ready_def run_iff unqueued_blocks_def)

lemma step_blocks:
  assumes "evt_step env cfg y l z"
  shows "unqueued_blocks (main z) = unqueued_blocks (main y)"
proof -
  have act: "evt_act env cfg l y = Some z" using assms by (rule evt_stepE)
  show ?thesis
  proof (cases l)
    case (Append i msg)
    then have "result (evt_append env msg) (main y)" using act by (simp split: if_splits)
    then have "run_state (evt_append env msg) (main y) = (True, final (evt_append env msg) (main y))"
      by (simp add: run_result)
    from other_blocks(1) [OF this] act Append show ?thesis by (auto split: if_splits)
  next
    case (Notify i)
    with other_blocks(2) [OF run_result, where env = env and s = "main y"] act show ?thesis by (auto split: if_splits)
  next
    case PollReturns
    with other_blocks(3) [OF run_result, where env = env and s = "main y"] act show ?thesis
      by (auto split: main_pc.splits prod.splits)
  next
    case ReadEventfd
    then obtain p r where "pc y = Polled p r" using act by (auto split: main_pc.splits)
    with other_blocks(4) [OF run_result, where env = env and p = p and r = r and s = "main y"] act ReadEventfd show ?thesis by auto
  next
    case TakeNext
    with take_next_blocks [OF run_result, of env cfg "main y"] act show ?thesis
      by (auto split: main_pc.splits)
  qed
qed

section \<open>Properties\<close>

text \<open>
  C23: Messages are freed exactly once: however senders and main loop are interleaved, the heap
  holds one block for each message in the queue, on top of what it held before; none leaks
  when it is handled and none is freed while it is queued.
\<close>

theorem messages_freed_once:
  assumes "evt_steps env cfg y ls z"
  shows "heap_blocks (trace (main z)) - int (length (evt_list (main z))) =
    heap_blocks (trace (main y)) - int (length (evt_list (main y)))"
proof -
  from assms have "unqueued_blocks (main z) = unqueued_blocks (main y)"
    by (induction rule: evt_steps.induct) (auto dest: step_blocks)
  then show ?thesis by (simp add: unqueued_blocks_def)
qed

text \<open>
  C22: Events are neither lost nor duplicated nor reordered: in every run of senders and main loop,
  from any state and on any platform, the messages dispatched, followed by those in the
  queue, are those that were in the queue before, followed by those appended, in order. And
  each dispatch really happened: \<open>bt_enable\<close> was called once for each of the dispatched
  messages that start Bluetooth, and not otherwise.
\<close>

theorem events_once_in_order:
  assumes "evt_steps env cfg y ls z"
  shows "\<exists>hs. handled (main z) = handled (main y) @ hs \<and>
    hs @ evt_list (main z) = evt_list (main y) @ appended ls \<and>
    enables (trace (main z)) = enables (trace (main y)) + length (filter starts_ble hs)"
  using history_steps [OF assms] by (simp add: history_def)

text \<open>
  C6: No wake-up is lost: when the main loop is about to poll, messages are queued and no
  sender is between appending and notifying, then the eventfd is readable, however
  senders and main loop were interleaved before.
\<close>

theorem no_lost_wakeup:
  assumes "evt_steps env cfg y ls z" and "evt_start y" and "writes_ok env"
    and "pc z = AtPoll" and "evt_list (main z) \<noteq> []" and "\<forall>i. \<not> notifying z i"
  shows "0 < efd_count (trace (main z))"
  using evt_inv_steps [OF assms(1) evt_inv_start [OF assms(2)] assms(3)] assms(4-6)
  by (auto simp: evt_inv_def)

text \<open>
  C4: Every event gets dispatched, under every schedule: let \<open>z\<close> be any reachable state, with the
  main loop anywhere and senders anywhere, and take any run from it in which each sender that
  was between appending and notifying in \<open>z\<close> notifies and the main loop then takes as many
  steps as there were messages in the queue, and 3 more. Whatever else is sent meanwhile, the
  messages that were in the queue of \<open>z\<close> have been dispatched, in order. (The platform's
  eventfd and \<open>poll\<close> work as documented; the main loop can always take a step.)
\<close>

theorem events_get_handled:
  assumes "evt_steps env cfg y ls z" and "evt_start y" and "eventfd_works env"
    and "evt_steps env cfg z (ks @ ks') w"
    and "\<forall>i. notifying z i \<longrightarrow> Notify i \<in> set ks"
    and "length (evt_list (main z)) + 3 \<le> main_steps ks'"
  shows "\<exists>more. handled (main w) = handled (main z) @ evt_list (main z) @ more"
proof -
  let ?n = "length (handled (main z)) + length (evt_list (main z))"
  have w: "writes_ok env" using assms(3) by (simp add: eventfd_works_def writes_ok_def)
  have inv: "evt_inv z" by (rule evt_inv_steps [OF assms(1) evt_inv_start [OF assms(2)] w])
  from assms(4) obtain x where x: "evt_steps env cfg z ks x" "evt_steps env cfg x ks' w"
    by (auto simp: evt_steps_append)
  from history_steps [OF x(1)] have "length (handled (main z)) \<le> length (handled (main x))"
    by (auto simp: history_def)
  then have "far ?n x \<le> length (evt_list (main z)) + 3" by (auto simp: far_def split: main_pc.splits)
  with due_steps [OF x(2) due_notified [OF inv x(1) assms(3,5)] assms(3)] assms(6)
  have "far ?n w = 0" by simp
  then have "?n \<le> length (handled (main w))" by (auto simp: far_def split: if_splits)
  moreover from history_steps [OF assms(4)] obtain hs where
    hs: "handled (main w) = handled (main z) @ hs" "hs @ evt_list (main w) = evt_list (main z) @ appended (ks @ ks')"
    unfolding history_def by blast
  ultimately have "length (evt_list (main z)) \<le> length hs" by simp
  with hs(2) have "hs = evt_list (main z) @ drop (length (evt_list (main z))) hs"
    by (metis append_eq_append_conv_if append_take_drop_id)
  then show ?thesis by (metis hs(1))
qed

text \<open>Runs, evaluated; the system behind a boot, with a sender that posts an event.\<close>

fun evt_run :: "env \<Rightarrow> config \<Rightarrow> evt_label list \<Rightarrow> evt_sys \<Rightarrow> evt_sys option" where
  "evt_run env cfg [] y = Some y"
| "evt_run env cfg (l # ls) y = (case evt_act env cfg l y of None \<Rightarrow> None | Some z \<Rightarrow> evt_run env cfg ls z)"

lemma evt_run_steps: "evt_run env cfg ls y = Some z \<Longrightarrow> evt_steps env cfg y ls z"
  by (induction ls arbitrary: y) (auto intro: evt_steps.intros evt_step.intros split: option.splits)

definition evt_sys0 :: evt_sys where
  "evt_sys0 = \<lparr>main = evt_st.extend
       (evt0\<lparr>g_fds := [\<lparr>pfd_fd = 5, pfd_events = POLLIN\<rparr>, \<lparr>pfd_fd = - 1, pfd_events = 0\<rparr>]\<rparr>) \<lparr>handled = []\<rparr>,
     pc = AtPoll, notifying = (\<lambda>_. False)\<rparr>"

abbreviation post :: evt_label where
  "post \<equiv> Append 0 (event EVT_BLE_START)"

abbreviation serve :: "evt_label list" where
  "serve \<equiv> [PollReturns, ReadEventfd, TakeNext, TakeNext]"

definition posting :: evt_sys where
  "posting = the (evt_run live_env ble_cfg [post] evt_sys0)"

definition posted :: evt_sys where
  "posted = the (evt_run live_env ble_cfg [post, Notify 0] evt_sys0)"

definition served :: evt_sys where
  "served = the (evt_run live_env ble_cfg ([Notify 0] @ serve) posting)"

lemma posting_reached: "evt_steps live_env ble_cfg evt_sys0 [post] posting"
proof -
  have "evt_run live_env ble_cfg [post] evt_sys0 \<noteq> None" by code_simp
  then show ?thesis unfolding posting_def by (intro evt_run_steps) auto
qed

lemma posted_reached: "evt_steps live_env ble_cfg evt_sys0 [post, Notify 0] posted"
proof -
  have "evt_run live_env ble_cfg [post, Notify 0] evt_sys0 \<noteq> None" by code_simp
  then show ?thesis unfolding posted_def by (intro evt_run_steps) auto
qed

lemma served_reached: "evt_steps live_env ble_cfg posting ([Notify 0] @ serve) served"
proof -
  have "evt_run live_env ble_cfg ([Notify 0] @ serve) posting \<noteq> None" by code_simp
  then show ?thesis unfolding served_def by (intro evt_run_steps) auto
qed

lemma evt_sys0_start: "evt_start evt_sys0"
  by (simp add: evt_start_def evt_sys0_def fds_ok_def fd_of_def evt0_def evt_st.defs ble_st.defs ble0_def
      POLLFD_T_EVENTFD_def POLLFD_T_SOCKET_def)

lemma live_env_writes: "writes_ok live_env"
  using live_env_works by (simp add: eventfd_works_def writes_ok_def)

lemma posted_state:
  "pc posted = AtPoll" "evt_list (main posted) = [event EVT_BLE_START]" "\<not> notifying posted i"
  by (simp_all add: posted_def evt_sys0_def evt_append_def evt_notify_def run_eval result_def final_def
      live_env_def sim_env_def reply_rc_def evt0_def evt_st.defs ble_st.defs ble0_def fd_of_def POLLFD_T_EVENTFD_def)

lemma posting_state:
  "evt_list (main posting) = [event EVT_BLE_START]" "notifying posting i \<longleftrightarrow> i = 0" "handled (main posting) = []"
  by (simp_all add: posting_def evt_sys0_def evt_append_def run_eval result_def final_def
      live_env_def sim_env_def reply_rc_def evt0_def evt_st.defs ble_st.defs ble0_def)

theorem events_once_in_order_witness:
  "\<exists>hs. handled (main served) = hs \<and> hs @ evt_list (main served) = [event EVT_BLE_START] \<and>
     enables (trace (main served)) = enables (trace (main posting)) + length (filter starts_ble hs)"
  using events_once_in_order [OF served_reached] by (simp add: posting_state)

theorem messages_freed_once_witness: "heap_blocks (trace (main posted)) = 1"
  using messages_freed_once [OF posted_reached]
  by (simp add: posted_state) (simp add: evt_sys0_def evt0_def ble0_def evt_st.defs ble_st.defs)

theorem no_lost_wakeup_witness: "0 < efd_count (trace (main posted))"
  by (rule no_lost_wakeup [OF posted_reached evt_sys0_start live_env_writes]) (simp_all add: posted_state)

theorem events_get_handled_witness:
  "evt_steps live_env ble_cfg posting ([Notify 0] @ serve) served \<and>
   (\<exists>more. handled (main served) = [event EVT_BLE_START] @ more)"
  using events_get_handled [OF posting_reached evt_sys0_start live_env_works served_reached] served_reached
  by (simp add: posting_state)

end
