(* ===== verification/Card.thy ===== *)
theory Card
  imports Upgrade HttpDl
begin

text \<open>
  The SD card between commands: the files a trace leaves on it, and what a file system that
  keeps them promises. On it the download of \<open>src/http_dl.c\<close> and the upgrade of
  \<open>src/upgrade.c\<close> compose: what was downloaded is what is installed.
\<close>

section \<open>The files on the card\<close>

text \<open>
  The files by name, and the open file with the position in it. Opening creates a missing
  file, as \<open>FS_O_CREATE\<close> does (without it opening a missing file fails); writing overwrites
  from the position on.
\<close>

record card =
  card_files :: "cstr \<rightharpoonup> byte list"
  card_cur :: "(cstr \<times> nat) option"

definition overwrite :: "byte list \<Rightarrow> nat \<Rightarrow> byte list \<Rightarrow> byte list" where
  "overwrite f p d = take p f @ d @ drop (p + length d) f"

definition card_open :: "cstr \<Rightarrow> card \<Rightarrow> card" where
  "card_open p c = c\<lparr>card_files := (case card_files c p of
       None \<Rightarrow> (card_files c)(p \<mapsto> []) | Some f \<Rightarrow> card_files c), card_cur := Some (p, 0)\<rparr>"

definition card_write :: "byte list \<Rightarrow> card \<Rightarrow> card" where
  "card_write d c = (case card_cur c of
     None \<Rightarrow> c
   | Some (p, pos) \<Rightarrow> (case card_files c p of
       None \<Rightarrow> c
     | Some f \<Rightarrow> c\<lparr>card_files := (card_files c)(p \<mapsto> overwrite f pos d), card_cur := Some (p, pos + length d)\<rparr>))"

fun card_after :: "card \<Rightarrow> event \<Rightarrow> card" where
  "card_after c (Fs (FsOpen p fl), r) = (if r_rc r < 0 then c else card_open p c)"
| "card_after c (Fs (FsRead n), r) = c\<lparr>card_cur := map_option (\<lambda>(p, pos). (p, pos + nat (r_rc r))) (card_cur c)\<rparr>"
| "card_after c (Fs (FsWrite d), r) = card_write (take (nat (r_rc r)) d) c"
| "card_after c (Fs FsClose, r) = c\<lparr>card_cur := None\<rparr>"
| "card_after c (Fs (FsUnlink p), r) = (if r_rc r = 0 then c\<lparr>card_files := (card_files c)(p := None)\<rparr> else c)"
| "card_after c _ = c"

definition card_of :: "card \<Rightarrow> event list \<Rightarrow> card" where
  "card_of c0 tr = foldl card_after c0 tr"

lemma card_of_append [simp]: "card_of c0 (tr @ es) = foldl card_after (card_of c0 tr) es"
  by (simp add: card_of_def)

lemma card_of_Nil [simp]: "card_of c0 [] = c0"
  by (simp add: card_of_def)

text \<open>A file system that keeps the files: it reads them and knows their sizes.\<close>

definition card_ok :: "env \<Rightarrow> card \<Rightarrow> bool" where
  "card_ok env c0 \<longleftrightarrow> (\<forall>tr.
     (\<forall>p pos bs n. card_cur (card_of c0 tr) = Some (p, pos) \<and> card_files (card_of c0 tr) p = Some bs \<and>
        pos \<le> length bs \<longrightarrow> read_reply bs pos (unat n) (env tr (Fs (FsRead n)))) \<and>
     (\<forall>p bs. card_files (card_of c0 tr) p = Some bs \<longrightarrow>
        r_size (env tr (Fs (FsStat p))) = of_nat (length bs)))"

lemma card_keeps_open:
  assumes "list_all keeps_open es" and "card_cur c = Some (p, q)"
  shows "card_files (foldl card_after c es) = card_files c \<and>
    card_cur (foldl card_after c es) = Some (p, foldl pos_after q es)"
  using assms
proof (induction es arbitrary: c q)
  case Nil
  then show ?case by simp
next
  case (Cons e es)
  then show ?case by (cases e rule: keeps_open.cases) auto
qed

lemma card_readable:
  assumes "card_ok env c0" and "card_cur (card_of c0 tr) = Some (p, read_pos tr)"
    and "card_files (card_of c0 tr) p = Some bs"
  shows "readable env bs tr"
  unfolding readable_def
proof (intro allI impI)
  fix es and n :: u32
  assume es: "list_all keeps_open es \<and> read_pos (tr @ es) \<le> length bs"
  with card_keeps_open [of es "card_of c0 tr" p] assms(2,3)
  have "card_cur (card_of c0 (tr @ es)) = Some (p, read_pos (tr @ es))"
    "card_files (card_of c0 (tr @ es)) p = Some bs" by auto
  with assms(1) es show "read_reply bs (read_pos (tr @ es)) (unat n) (env (tr @ es) (Fs (FsRead n)))"
    unfolding card_ok_def by blast
qed

section \<open>Installing a file of the card\<close>

lemma ota_opened_readable:
  assumes "card_ok env c0" and "card_files (card_of c0 tr) p = Some bs" and "ota_opened env p i n tr tr'"
  shows "readable env bs tr'"
  using assms(2,3) by (intro card_readable [OF assms(1)]) (auto simp: ota_opened_def card_open_def)

lemma upgrade_from_card:
  fixes s t :: "'a io_scheme"
  assumes "card_ok env c0" and "card_files (card_of c0 (trace s)) path = Some bs"
    and "length bs + 4095 < 2 ^ 32"
    and "run_state (perform_ota_upgrade_from_file env fuel part path) s = (r, t)"
    and "\<forall>x. (Boot SysRebootWarm, x) \<notin> set (trace s)"
    and "(Boot SysRebootWarm, x) \<in> set (trace t)"
  shows "flash_holds f0 bs (trace t)"
proof -
  from perform_ota_reboots [OF assms(4-6)] obtain target y q w and s1 t1 :: "'a io_scheme" where
    s1: "trace s1 = trace s @ [(Boot BootFetchActiveSlot, y)]"
    and t1: "run_state (write_ota_file_to_partition env fuel path target) s1 = (Some 0, t1)"
    and t: "trace t = trace t1 @ [(Boot BootRequestUpgradeTest, q), (Kern (KSleepMs 100), w), (Boot SysRebootWarm, x)]"
    by metis
  from assms(2) s1 have f: "card_files (card_of c0 (trace s1)) path = Some bs" by simp
  with assms(1) have "r_size (env (trace s1) (Fs (FsStat path))) = of_nat (length bs)"
    unfolding card_ok_def by blast
  from ota_holds_at [OF ota_opened_readable [OF assms(1) f] assms(3) this t1]
  show ?thesis by (simp add: t flash_holds_boot)
qed

text \<open>Where nothing fails, installing a file of the card reboots into it.\<close>

lemma cmd_upgrade_from_card:
  fixes v :: "'a io_scheme"
  assumes "card_ok env c0" and "upgrade_works env" and "D \<noteq> []" and "length D + 4095 < 2 ^ 32" and "length D < fuel"
    and "card_files (card_of c0 (trace v)) (snprintf_path 128 fatfs_get_root_path name) = Some D"
  shows "\<exists>t x. run_state (cmd_upgrade env fuel part [cmd, name]) v = (Some 0, t) \<and>
    (Boot SysRebootWarm, x) \<in> set (trace t) \<and> flash_holds f0 D (trace t)"
proof -
  let ?p = "snprintf_path 128 fatfs_get_root_path name"
  from assms(6) have D: "card_files (card_of c0 (trace v @ [(Boot BootFetchActiveSlot, y)])) ?p = Some D" for y
    by simp
  have size: "r_size (env (trace v @ [(Boot BootFetchActiveSlot, y)]) (Fs (FsStat ?p))) = of_nat (length D)" for y
    using assms(1) D unfolding card_ok_def by blast
  have "\<exists>t x. run_state (perform_ota_upgrade_from_file env fuel part ?p) v = (Some (), t) \<and>
      (Boot SysRebootWarm, x) \<in> set (trace t) \<and> flash_holds f0 D (trace t)"
    by (rule perform_ota_works [OF assms(2,4,5,3) size]) (rule ota_opened_readable [OF assms(1) D])
  then show ?thesis by (auto simp: cmd_upgrade_def run_eval Let_def)
qed

section \<open>Downloading to the card\<close>

text \<open>A network and a card on which nothing fails.\<close>

definition network_ok :: "env \<Rightarrow> bool" where
  "network_ok env \<longleftrightarrow> (\<forall>tr.
     (\<forall>h p. r_rc (env tr (Net (GetAddrInfo h p))) = 0) \<and>
     (\<forall>f. 0 \<le> r_rc (env tr (Net (SocketTcp f)))) \<and>
     (\<forall>k a. 0 \<le> r_rc (env tr (Net (Connect k a)))))"

definition card_takes :: "env \<Rightarrow> bool" where
  "card_takes env \<longleftrightarrow> (\<forall>tr d. r_rc (env tr (Fs (FsWrite d))) = int (length d))"

lemma overwrite_overwrite:
  "p \<le> length f \<Longrightarrow> overwrite (overwrite f p d) (p + length d) e = overwrite f p (d @ e)"
  by (simp add: overwrite_def min_def ac_simps)

lemma card_plain:
  assumes "\<forall>e \<in> set es. plain e" and "card_cur c = Some (p, q)" and "card_files c p = Some f" and "q \<le> length f"
  shows "card_files (foldl card_after c es) p = Some (overwrite f q (stored es))"
  using assms
proof (induction es arbitrary: c f q)
  case Nil
  then show ?case by (simp add: overwrite_def)
next
  case (Cons e es)
  show ?case
  proof (cases "\<exists>d r. e = (Fs (FsWrite d), r)")
    case True
    then obtain d r where e: "e = (Fs (FsWrite d), r)" by blast
    let ?d = "take (nat (r_rc r)) d"
    have c: "card_cur (card_write ?d c) = Some (p, q + length ?d)"
      "card_files (card_write ?d c) p = Some (overwrite f q ?d)"
      using Cons.prems(2,3) by (simp_all add: card_write_def)
    have "q + length ?d \<le> length (overwrite f q ?d)"
      using Cons.prems(4) by (simp add: overwrite_def)
    with Cons.IH [OF _ c] Cons.prems(1,4) show ?thesis
      by (simp add: e overwrite_overwrite [symmetric])
  next
    case False
    with Cons show ?thesis by (cases e rule: plain.cases) auto
  qed
qed

text \<open>Nothing but writing and unlinking changes what an existing file holds.\<close>

fun harmless :: "call \<Rightarrow> bool" where
  "harmless (Fs (FsWrite d)) = False"
| "harmless (Fs (FsUnlink p)) = False"
| "harmless _ = True"

definition holds :: "card \<Rightarrow> cstr \<Rightarrow> byte list \<Rightarrow> 'a io_scheme \<Rightarrow> bool" where
  "holds c0 p bs s \<longleftrightarrow> card_files (card_of c0 (trace s)) p = Some bs"

lemma card_after_harmless:
  "harmless c \<Longrightarrow> card_files k p = Some bs \<Longrightarrow> card_files (card_after k (c, r)) p = Some bs"
  by (cases "(k, (c, r))" rule: card_after.cases) (auto simp: card_open_def split: option.splits)

lemma holds_ext: "holds c0 p bs s \<Longrightarrow> harmless c \<Longrightarrow> holds c0 p bs (s\<lparr>trace := trace s @ [(c, r)]\<rparr>)"
  by (simp add: holds_def card_after_harmless)

lemma dl_digest_holds: "preserves (holds c0 p bs) (dl_digest env fuel garbage q)"
  unfolding dl_digest_def calculate_file_sha256_def sha_prepare_def sha_body_def sha_finish_def
    print_sha256_sum_def
  by (intro pres_rules holds_ext) simp_all

text \<open>What the card holds under the name before the download; no file is an empty one.\<close>

definition old_file :: "card \<Rightarrow> cstr \<Rightarrow> byte list" where
  "old_file c p = (case card_files c p of None \<Rightarrow> [] | Some f \<Rightarrow> f)"

lemma connect_on_card:
  "run_state (http_dl_socket_connect env hostname port k) s = ((ret, sock), u) \<Longrightarrow>
     card_of c0 (trace u) = card_of c0 (trace s) \<and> failed transfer_kind (trace s) \<le> failed transfer_kind (trace u) \<and>
     (failed transfer_kind (trace u) = failed transfer_kind (trace s) \<longrightarrow> 0 \<le> sock)"
  unfolding http_dl_socket_connect_def http_dl_socket_init_def by (auto simp: run_iff)

text \<open>
  Whatever happens in the request, the file ends up with something written over its beginning;
  if nothing failed, with the body.
\<close>

definition written :: "card \<Rightarrow> cstr \<Rightarrow> byte list \<Rightarrow> byte list \<Rightarrow> event list \<Rightarrow> 'a io_scheme \<Rightarrow> bool" where
  "written c0 p f D tr t \<longleftrightarrow> (\<exists>d. holds c0 p (overwrite f 0 d) t \<and>
     failed transfer_kind tr \<le> failed transfer_kind (trace t) \<and>
     (failed transfer_kind (trace t) = failed transfer_kind tr \<longrightarrow> d = D))"

lemma get_req_on_card:
  fixes s t :: "'a io_scheme"
  assumes "pieces_fit rsps"
    and "card_cur (card_of c0 (trace s)) = Some (p, 0)" and "card_files (card_of c0 (trace s)) p = Some f"
    and "run_state (http_dl_get_req env rsps hostname port path ctx) s = (r, t)"
  shows "written c0 p f (concat (map payload rsps)) (trace s) t"
proof -
  obtain ret sock and v :: "'a io_scheme" where
    c: "run_state (http_dl_socket_connect env hostname port (- 1)) s = ((ret, sock), v)"
    by (metis surj_pair)
  note v = connect_on_card [OF c, of c0]
  show ?thesis
  proof (cases "sock < 0")
    case True
    with assms(4) c have "t = v" by (simp add: http_dl_get_req_def run_state_bind)
    with v True assms(3) show ?thesis
      unfolding written_def by (intro exI [of _ "[]"]) (auto simp: holds_def overwrite_def)
  next
    case False
    with assms(4) c obtain u w :: "'a io_scheme" and ctx' x y where
      h: "run_state (ext_posix env (Net (HttpClientReq sock hostname path (5 * 60 * 1000)))) v = (y, u)"
      and d: "run_state (deliver env rsps ctx) u = (ctx', w)"
      and cl: "run_state (ext_posix env (Net (SocketClose sock))) w = (x, t)"
      unfolding http_dl_get_req_def by (auto simp: run_bind_iff run_return_iff)
    from h cl have u: "\<exists>q. trace u = trace v @ [(Net (HttpClientReq sock hostname path (5 * 60 * 1000)), q)]"
      and t: "\<exists>q. trace t = trace w @ [(Net (SocketClose sock), q)]"
      by (auto simp: run_iff)
    obtain es where es: "trace w = trace u @ es" "\<forall>e \<in> set es. plain e"
      using deliver_plain [OF d] by blast
    from u v have cu: "card_of c0 (trace u) = card_of c0 (trace s)"
      and fu: "failed transfer_kind (trace u) = failed transfer_kind (trace v)" by auto
    have "card_files (card_of c0 (trace w)) p = Some (overwrite f 0 (stored es))"
      using card_plain [OF es(2), of "card_of c0 (trace s)" p 0 f] assms(2,3) by (simp add: es(1) cu)
    with t have "holds c0 p (overwrite f 0 (stored es)) t" by (auto simp: holds_def)
    moreover have "failed transfer_kind (trace t) = failed transfer_kind (trace w)" using t by auto
    moreover note deliver_stored [OF d assms(1)] fu v
    ultimately show ?thesis
      unfolding written_def by (intro exI [of _ "stored es"]) (auto simp: es(1))
  qed
qed

text \<open>The file a download or an upgrade names.\<close>

abbreviation on_card :: "cstr \<Rightarrow> cstr" where
  "on_card name \<equiv> snprintf_path 128 fatfs_get_root_path name"

text \<open>The lines a trace has printed on the console.\<close>

fun printed_by :: "event \<Rightarrow> cstr list" where
  "printed_by (Kern (Printk x), r) = [x]"
| "printed_by _ = []"

definition printed :: "event list \<Rightarrow> cstr list" where
  "printed tr = concat (map printed_by tr)"

lemma printed_append [simp]: "printed (tr @ es) = printed tr @ concat (map printed_by es)"
  by (simp add: printed_def)

definition prints_are :: "cstr list \<Rightarrow> 'a io_scheme \<Rightarrow> bool" where
  "prints_are q s \<longleftrightarrow> printed (trace s) = q"

lemma prints_ext [intro]: "prints_are q s \<Longrightarrow> printed_by (c, r) = [] \<Longrightarrow> prints_are q (s\<lparr>trace := trace s @ [(c, r)]\<rparr>)"
  by (simp add: prints_are_def)

lemma prints_posix [intro]:
  "prints_are q s \<Longrightarrow> printed_by (c, r) = [] \<Longrightarrow> prints_are q (s\<lparr>trace := trace s @ [(c, r)], errno := e\<rparr>)"
  by (simp add: prints_are_def)

lemma deliver_prints: "preserves (prints_are q) (deliver env rsps ctx)"
proof (induction rsps arbitrary: ctx)
  case Nil
  show ?case unfolding deliver.simps by (intro pres_rules)
next
  case (Cons rsp rsps)
  show ?case
    unfolding deliver.simps http_dl_response_cb_def report_progress_def print_progress_def
    by (intro pres_rules Cons.IH) auto
qed

lemma get_req_prints: "preserves (prints_are q) (http_dl_get_req env rsps host port path ctx)"
  unfolding http_dl_get_req_def http_dl_socket_connect_def http_dl_socket_init_def
  by (intro pres_rules deliver_prints) auto

lemma sha_prints: "preserves (prints_are q) (calculate_file_sha256 env fuel p out)"
  unfolding calculate_file_sha256_def sha_prepare_def sha_body_def sha_finish_def
  by (intro pres_rules) auto

lemma get_req_hash: "preserves (\<lambda>s. failed hash_kind (trace s) = n) (http_dl_get_req env rsps hostname port path ctx)"
proof -
  have "preserves (\<lambda>s :: 'b io_scheme. failed hash_kind (trace s) = n) (deliver env rsps ctx)" for rsps ctx
  proof (induction rsps arbitrary: ctx)
    case Nil
    show ?case unfolding deliver.simps by (intro pres_rules)
  next
    case (Cons rsp rsps)
    show ?case
      unfolding deliver.simps http_dl_response_cb_def report_progress_def print_progress_def
      by (intro pres_rules Cons.IH) simp_all
  qed
  then show ?thesis
    unfolding http_dl_get_req_def http_dl_socket_connect_def http_dl_socket_init_def
    by (intro pres_rules) simp_all
qed

lemma dl_digest_transfer: "preserves (\<lambda>s. failed transfer_kind (trace s) = n) (dl_digest env fuel garbage p)"
  unfolding dl_digest_def calculate_file_sha256_def sha_prepare_def sha_body_def sha_finish_def
    print_sha256_sum_def
  by (intro pres_rules) simp_all

text \<open>Up to the digest: the file is written and nothing was printed or hashed.\<close>

lemma download_before_digest:
  fixes s t :: "'a io_scheme"
  assumes "pieces_fit rsps"
    and "run_state (http_dl_file env rsps fuel garbage hostname port path name) s = (Some r, t)" and "0 \<le> r"
  shows "\<exists>w :: 'a io_scheme.
    written c0 (on_card name) (old_file (card_of c0 (trace s)) (on_card name)) (concat (map payload rsps)) (trace s) w \<and>
    prints_are (printed (trace s)) w \<and> failed hash_kind (trace w) = failed hash_kind (trace s) \<and>
    run_state (dl_digest env fuel garbage (on_card name)) w = (Some r, t)"
proof -
  let ?p = "on_card name" and ?D = "concat (map payload rsps)"
  define f where "f = old_file (card_of c0 (trace s)) ?p"
  from assms(2,3) obtain x q u v w y where
    x: "run_state (ext env (Fs (FsOpen ?p [FS_O_CREATE, FS_O_WRITE]))) s = (x, u)" "\<not> r_rc x < 0"
    and q: "run_state (http_dl_get_req env rsps hostname port path ctx_init) u = (q, v)"
    and y: "run_state (ext env (Fs FsClose)) v = (y, w)"
    and z: "run_state (dl_digest env fuel garbage ?p) w = (Some r, t)"
    unfolding http_dl_file_def Let_def by (auto simp: run_bind_iff run_if_iff run_return_iff)
  from x have u: "card_cur (card_of c0 (trace u)) = Some (?p, 0)" "card_files (card_of c0 (trace u)) ?p = Some f"
    "failed transfer_kind (trace u) = failed transfer_kind (trace s)" "prints_are (printed (trace s)) u"
    "failed hash_kind (trace u) = failed hash_kind (trace s)"
    by (auto simp: run_iff card_open_def f_def old_file_def prints_are_def split: option.splits)
  from get_req_on_card [OF assms(1) u(1,2) q] y have "written c0 ?p f ?D (trace s) w"
    by (auto simp: written_def run_iff u(3) intro!: holds_ext)
  moreover have "prints_are (printed (trace s)) w"
    using preservesD [OF get_req_prints u(4) q] y by (auto simp: run_iff)
  moreover have "failed hash_kind (trace w) = failed hash_kind (trace s)"
    using preservesD [OF get_req_hash u(5) q] y by (auto simp: run_iff)
  ultimately show ?thesis using z by (auto simp: f_def)
qed

lemma download_on_card:
  fixes s t :: "'a io_scheme"
  assumes "pieces_fit rsps"
    and "run_state (http_dl_file env rsps fuel garbage hostname port path name) s = (Some r, t)" and "0 \<le> r"
  shows "written c0 (on_card name) (old_file (card_of c0 (trace s)) (on_card name)) (concat (map payload rsps)) (trace s) t"
proof -
  from download_before_digest [OF assms, of c0] obtain w :: "'a io_scheme" where
    w: "written c0 (on_card name) (old_file (card_of c0 (trace s)) (on_card name)) (concat (map payload rsps)) (trace s) w"
    and dg: "run_state (dl_digest env fuel garbage (on_card name)) w = (Some r, t)" by blast
  from preservesD [OF dl_digest_transfer refl dg]
  have "failed transfer_kind (trace t) = failed transfer_kind (trace w)" .
  with w preservesD [OF dl_digest_holds _ dg] show ?thesis unfolding written_def by metis
qed

text \<open>The command around the download only talks to the shell.\<close>

definition same_view :: "card \<Rightarrow> 'a io_scheme \<Rightarrow> 'a io_scheme \<Rightarrow> bool" where
  "same_view c0 s t \<longleftrightarrow> card_of c0 (trace t) = card_of c0 (trace s) \<and> printed (trace t) = printed (trace s) \<and>
     failed transfer_kind (trace t) = failed transfer_kind (trace s) \<and>
     failed hash_kind (trace t) = failed hash_kind (trace s)"

lemma shell_same_view: "run_state (ext env (Shell x)) s = (r, t) \<Longrightarrow> same_view c0 s t"
  by (auto simp: run_iff same_view_def)

lemma cmd_http_dl_parts:
  fixes s u :: "'a io_scheme"
  assumes "run_state (cmd_http_dl env rsps fuel garbage [cmd, host, port, path, name]) s = (Some 0, u)"
  shows "\<exists>(s4 :: 'a io_scheme) ret s5. same_view c0 s s4 \<and>
    run_state (http_dl_file env rsps fuel garbage host port path name) s4 = (Some ret, s5) \<and> 0 \<le> ret \<and>
    same_view c0 s5 u"
proof -
  from assms obtain x1 s1 x2 s2 x3 s3 x4 s4 ret s5 x6 where
    sh: "run_state (ext env (Shell (ShellText ''download ...''))) s = (x1, s1)"
      "run_state (ext env (Shell (ShellText (''server: '' @ host @ '':'' @ port)))) s1 = (x2, s2)"
      "run_state (ext env (Shell (ShellText (''URL Path: '' @ path)))) s2 = (x3, s3)"
      "run_state (ext env (Shell (ShellText (''Save Path: '' @ name)))) s3 = (x4, s4)"
    and dl: "run_state (http_dl_file env rsps fuel garbage host port path name) s4 = (Some ret, s5)" "\<not> ret < 0"
    and u: "run_state (ext env (Shell (ShellText ''Download Success!''))) s5 = (x6, u)"
    unfolding cmd_http_dl_def Let_def
    by (auto simp: run_bind_iff run_if_iff run_return_iff run_case_option_iff simp del: append.simps)
  have "same_view c0 s s4"
    using shell_same_view [OF sh(1), of c0] shell_same_view [OF sh(2), of c0]
      shell_same_view [OF sh(3), of c0] shell_same_view [OF sh(4), of c0] by (simp add: same_view_def)
  with dl shell_same_view [OF u, of c0] show ?thesis by auto
qed

lemma cmd_download_on_card:
  fixes s u :: "'a io_scheme"
  assumes "pieces_fit rsps"
    and "run_state (cmd_http_dl env rsps fuel garbage [cmd, host, port, path, name]) s = (Some 0, u)"
  shows "written c0 (on_card name) (old_file (card_of c0 (trace s)) (on_card name)) (concat (map payload rsps)) (trace s) u"
proof -
  from cmd_http_dl_parts [OF assms(2), of c0] obtain ret and s4 s5 :: "'a io_scheme" where
    v: "same_view c0 s s4" "same_view c0 s5 u"
    and dl: "run_state (http_dl_file env rsps fuel garbage host port path name) s4 = (Some ret, s5)" "0 \<le> ret"
    by blast
  from download_on_card [OF assms(1) dl, of c0] v show ?thesis
    by (simp add: same_view_def written_def holds_def)
qed

lemma sha_opened_readable:
  assumes "card_ok env c0" and "card_files (card_of c0 tr) p = Some bs" and "sha_opened p tr tr'"
  shows "readable env bs tr'"
  using assms(2,3) by (intro card_readable [OF assms(1)]) (auto simp: sha_opened_def card_open_def)

text \<open>A hash implementation whose digests have 32 bytes.\<close>

definition digests_32 :: "env \<Rightarrow> bool" where
  "digests_32 env \<longleftrightarrow> (\<forall>tr. length (r_data (env tr (Psa PsaHashFinish))) = 32)"

text \<open>The digest that is printed is that of the file, unless hashing it failed.\<close>

lemma dl_digest_prints:
  fixes s t :: "'a io_scheme"
  assumes "card_ok env c0" and "psa_hashes sha env" and "digests_32 env" and "length garbage = 65"
    and "holds c0 p bs s" and "run_state (dl_digest env fuel garbage p) s = (Some r, t)"
    and "failed hash_kind (trace t) = failed hash_kind (trace s)"
  shows "printed (trace t) = printed (trace s) @ [digest_line (sha bs) p]"
proof -
  have f: "card_files (card_of c0 (trace s)) p = Some bs" using assms(5) by (simp add: holds_def)
  from assms(6) obtain rc h and u :: "'a io_scheme" where
    c: "run_state (calculate_file_sha256 env fuel p (replicate 32 0)) s = (Some (rc, h), u)"
    and pr: "run_state (print_sha256_sum env garbage h p) u = (Some (), t)"
    unfolding dl_digest_def by (auto simp: run_iff split: option.splits)
  have "length h = 32"
    by (rule sha_output_length [OF _ _ c]) (use assms(3) in \<open>simp_all add: digests_32_def\<close>)
  from print_sha_prints [OF this assms(4)] pr obtain q where
    t: "t = u\<lparr>trace := trace u @ [(Kern (Printk (digest_line h p)), q)]\<rparr>" by (metis prod.inject)
  have "rc = 0"
  proof (rule ccontr)
    assume "rc \<noteq> 0"
    from sha_error_failed [OF c this] assms(7) show False by (simp add: t)
  qed
  with c have c0': "run_state (calculate_file_sha256 env fuel p (replicate 32 0)) s = (Some (0, h), u)" by simp
  have "h = sha bs" by (rule sha_correct_at [OF sha_opened_readable [OF assms(1) f] assms(2) c0'])
  moreover have "printed (trace u) = printed (trace s)"
    using preservesD [OF sha_prints _ c, of "printed (trace s)"] by (simp add: prints_are_def)
  ultimately show ?thesis by (simp add: t)
qed

lemma dl_digest_returns:
  fixes s :: "'a io_scheme"
  assumes "card_ok env c0" and "digests_32 env" and "holds c0 p bs s" and "length bs < fuel" and "length garbage = 65"
  shows "\<exists>t. run_state (dl_digest env fuel garbage p) s = (Some 0, t)"
proof -
  have "card_files (card_of c0 (trace s)) p = Some bs" using assms(3) by (simp add: holds_def)
  from sha_returns_at [OF sha_opened_readable [OF assms(1) this] assms(4), where out = "replicate 32 0"]
  obtain rc out u where c: "run_state (calculate_file_sha256 env fuel p (replicate 32 0)) s = (Some (rc, out), u)"
    by (metis surj_pair)
  have "length out = 32"
    by (rule sha_output_length [OF _ _ c]) (use assms(2) in \<open>simp_all add: digests_32_def\<close>)
  from print_sha_returns [OF this assms(5)] obtain t where
    "run_state (print_sha256_sum env garbage out p) u = (Some (), t)" by blast
  with c show ?thesis by (simp add: dl_digest_def run_eval)
qed

text \<open>On a network and a card on which nothing fails a download returns, with nothing failed.\<close>

lemma get_req_no_failure:
  assumes "network_ok env" and "card_takes env"
  shows "preserves (\<lambda>s. failed transfer_kind (trace s) = n) (http_dl_get_req env rsps hostname port path ctx)"
proof -
  have "preserves (\<lambda>s :: 'b io_scheme. failed transfer_kind (trace s) = n) (deliver env rsps ctx)" for rsps ctx
  proof (induction rsps arbitrary: ctx)
    case Nil
    show ?case unfolding deliver.simps by (rule preserves_return)
  next
    case (Cons rsp rsps)
    show ?case
      unfolding deliver.simps http_dl_response_cb_def report_progress_def print_progress_def
      using assms(2) by (intro answer_rules Cons.IH) (simp_all add: card_takes_def)
  qed
  then show ?thesis
    unfolding http_dl_get_req_def http_dl_socket_connect_def http_dl_socket_init_def
    using assms(1) by (intro answer_rules) (simp_all add: network_ok_def not_less)
qed

lemma cmd_download_returns:
  fixes s :: "'a io_scheme"
  assumes "card_ok env c0" and "network_ok env" and "card_takes env" and "upgrade_works env" and "digests_32 env"
    and "pieces_fit rsps" and "D = concat (map payload rsps)"
    and "content = overwrite (old_file (card_of c0 (trace s)) (on_card name)) 0 D"
    and "length content < fuel" and "length garbage = 65"
  shows "\<exists>u. run_state (cmd_http_dl env rsps fuel garbage [cmd, host, port, path, name]) s = (Some 0, u) \<and>
    holds c0 (on_card name) content u \<and> failed transfer_kind (trace u) = failed transfer_kind (trace s)"
proof -
  let ?p = "on_card name"
  obtain x1 s1 x2 s2 x3 s3 x4 s4 where
    sh: "run_state (ext env (Shell (ShellText ''download ...''))) s = (x1, s1)"
      "run_state (ext env (Shell (ShellText (''server: '' @ host @ '':'' @ port)))) s1 = (x2, s2)"
      "run_state (ext env (Shell (ShellText (''URL Path: '' @ path)))) s2 = (x3, s3)"
      "run_state (ext env (Shell (ShellText (''Save Path: '' @ name)))) s3 = (x4, s4)"
    by (metis surj_pair)
  then have c4: "card_of c0 (trace s4) = card_of c0 (trace s)"
    and f4: "failed transfer_kind (trace s4) = failed transfer_kind (trace s)" by (auto simp: run_iff)
  obtain x u where x: "run_state (ext env (Fs (FsOpen ?p [FS_O_CREATE, FS_O_WRITE]))) s4 = (x, u)"
    by (metis surj_pair)
  then have rx: "\<not> r_rc x < 0" using assms(4) by (auto simp: run_iff answers_def upgrade_works_def not_less)
  obtain q v where q: "run_state (http_dl_get_req env rsps host port path ctx_init) u = (q, v)" by (metis surj_pair)
  obtain y w where y: "run_state (ext env (Fs FsClose)) v = (y, w)" by (metis surj_pair)
  define f where "f = old_file (card_of c0 (trace s)) ?p"
  from x rx c4 have "card_cur (card_of c0 (trace u)) = Some (?p, 0)" "card_files (card_of c0 (trace u)) ?p = Some f"
    by (auto simp: run_iff card_open_def f_def old_file_def split: option.splits)
  note req = get_req_on_card [OF assms(6) this q] preservesD [OF get_req_no_failure [OF assms(2,3)] refl q]
  from req have "holds c0 ?p content v" using assms(7,8) by (auto simp: written_def f_def)
  then have w: "holds c0 ?p content w" using y by (auto simp: run_iff intro: holds_ext)
  from req x y rx have fw: "failed transfer_kind (trace w) = failed transfer_kind (trace s)"
    by (auto simp: run_iff f4)
  from dl_digest_returns [OF assms(1,5) w assms(9,10)] obtain z where
    z: "run_state (dl_digest env fuel garbage ?p) w = (Some 0, z)" by blast
  from preservesD [OF dl_digest_holds w z] have hz: "holds c0 ?p content z" .
  from x rx q y z have "run_state (http_dl_file env rsps fuel garbage host port path name) s4 = (Some 0, z)"
    by (simp add: http_dl_file_def Let_def run_state_bind)
  with sh obtain x6 where
    u6: "run_state (cmd_http_dl env rsps fuel garbage [cmd, host, port, path, name]) s =
      (Some 0, z\<lparr>trace := trace z @ [(Shell (ShellText ''Download Success!''), x6)]\<rparr>)"
    unfolding cmd_http_dl_def Let_def
    by (auto simp: run_bind_iff run_if_iff run_return_iff run_case_option_iff run_ext_iff answers_def simp del: append.simps)
  have "holds c0 ?p content (z\<lparr>trace := trace z @ [(Shell (ShellText ''Download Success!''), x6)]\<rparr>)"
    by (rule holds_ext [OF hz]) simp
  moreover from preservesD [OF dl_digest_transfer refl z] fw
  have "failed transfer_kind (trace z) = failed transfer_kind (trace s)" by simp
  ultimately show ?thesis using u6 by fastforce
qed

text \<open>A download does not touch the boot state.\<close>

definition boots_are :: "event list \<Rightarrow> 'a io_scheme \<Rightarrow> bool" where
  "boots_are b s \<longleftrightarrow> boots (trace s) = b"

lemma deliver_boots: "preserves (boots_are b) (deliver env rsps ctx)"
proof (induction rsps arbitrary: ctx)
  case Nil
  show ?case unfolding deliver.simps by (intro pres_rules)
next
  case (Cons rsp rsps)
  show ?case
    unfolding deliver.simps http_dl_response_cb_def report_progress_def print_progress_def
    by (intro pres_rules Cons.IH) (simp_all add: boots_are_def)
qed

lemma download_boots: "preserves (boots_are b) (cmd_http_dl env rsps fuel garbage argv)"
  unfolding cmd_http_dl_def http_dl_file_def http_dl_get_req_def http_dl_socket_connect_def
    http_dl_socket_init_def dl_digest_def calculate_file_sha256_def sha_prepare_def sha_body_def
    sha_finish_def print_sha256_sum_def
  by (intro pres_rules deliver_boots) (simp_all add: boots_are_def)

section \<open>Properties\<close>

text \<open>
  C14: The digest \<open>http_dl\<close> prints is that of the file it leaves on the card: one line, unless a
  call of the hashing failed, whatever happened to the transfer. And if no network call and
  no write of the transfer failed, that file is what the HTTP library handed over, followed
  by what an older, longer file of the name had behind it.
\<close>

theorem download_shows_digest:
  fixes s u :: "'a io_scheme"
  assumes "card_ok env c0" and "psa_hashes sha env" and "digests_32 env"
    and "pieces_fit rsps" and "D = concat (map payload rsps)"
    and "old = old_file (card_of c0 (trace s)) (on_card name)" and "length garbage = 65"
    and "run_state (cmd_http_dl env rsps fuel garbage [cmd, host, port, path, name]) s = (Some 0, u)"
  shows "\<exists>content. card_files (card_of c0 (trace u)) (on_card name) = Some content \<and>
    (failed transfer_kind (trace u) = failed transfer_kind (trace s) \<longrightarrow> content = D @ drop (length D) old) \<and>
    (failed hash_kind (trace u) = failed hash_kind (trace s) \<longrightarrow>
      printed (trace u) = printed (trace s) @ [digest_line (sha content) (on_card name)])"
proof -
  from cmd_http_dl_parts [OF assms(8), of c0] obtain ret and s4 s5 :: "'a io_scheme" where
    v: "same_view c0 s s4" "same_view c0 s5 u"
    and dl: "run_state (http_dl_file env rsps fuel garbage host port path name) s4 = (Some ret, s5)" "0 \<le> ret"
    by blast
  from download_before_digest [OF assms(4) dl, of c0] v(1) assms(5,6) obtain w :: "'a io_scheme" and d where
    w: "holds c0 (on_card name) (overwrite old 0 d) w" "printed (trace w) = printed (trace s)"
      "failed hash_kind (trace w) = failed hash_kind (trace s)"
    and d: "failed transfer_kind (trace w) = failed transfer_kind (trace s) \<longrightarrow> d = D"
    and dg: "run_state (dl_digest env fuel garbage (on_card name)) w = (Some ret, s5)"
    by (auto simp: written_def prints_are_def same_view_def)
  have "holds c0 (on_card name) (overwrite old 0 d) u"
    using preservesD [OF dl_digest_holds w(1) dg] v(2) by (simp add: holds_def same_view_def)
  moreover have "failed transfer_kind (trace u) = failed transfer_kind (trace w)"
    using preservesD [OF dl_digest_transfer refl dg] v(2) by (simp add: same_view_def)
  moreover have "printed (trace u) = printed (trace s) @ [digest_line (sha (overwrite old 0 d)) (on_card name)]"
    if "failed hash_kind (trace u) = failed hash_kind (trace s)"
    using dl_digest_prints [OF assms(1-3,7) w(1) dg] that w(2,3) v(2) by (simp add: same_view_def)
  ultimately show ?thesis
    using d by (intro exI [of _ "overwrite old 0 d"]) (auto simp: holds_def overwrite_def)
qed

text \<open>
  C12: Where nothing fails an update over HTTP comes through: for every body and every old file of
  the name that together leave a file that is not empty and fits, \<open>http_dl\<close> and then \<open>upgrade\<close>
  return, the device reboots, and the partition begins with that file: the body, followed by
  the rest of an older file that was longer (which \<open>http_dl\<close> does not truncate).
\<close>

theorem update_completes:
  fixes s :: "'a io_scheme"
  assumes "card_ok env c0" and "network_ok env" and "card_takes env" and "upgrade_works env" and "digests_32 env"
    and "pieces_fit rsps" and "D = concat (map payload rsps)"
    and "content = D @ drop (length D) (old_file (card_of c0 (trace s)) (on_card name))"
    and "content \<noteq> []" and "length content + 4095 < 2 ^ 32" and "length content < fuel" and "length garbage = 65"
  shows "\<exists>u t x. run_state (cmd_http_dl env rsps fuel garbage [cmd, host, port, path, name]) s = (Some 0, u) \<and>
    run_state (cmd_upgrade env fuel part [cmd', name]) u = (Some 0, t) \<and>
    (Boot SysRebootWarm, x) \<in> set (trace t) \<and> flash_holds f0 content (trace t)"
proof -
  have "content = overwrite (old_file (card_of c0 (trace s)) (on_card name)) 0 D"
    using assms(8) by (simp add: overwrite_def)
  from cmd_download_returns [OF assms(1-7) this assms(11,12), of cmd host port path] obtain u where
    u: "run_state (cmd_http_dl env rsps fuel garbage [cmd, host, port, path, name]) s = (Some 0, u)"
    and h: "card_files (card_of c0 (trace u)) (on_card name) = Some content" by (auto simp: holds_def)
  from cmd_upgrade_from_card [OF assms(1,4,9,10,11) h, of part cmd' f0] u show ?thesis by blast
qed

text \<open>A platform with such a card, network and file system.\<close>

definition open_rest :: "card \<Rightarrow> byte list" where
  "open_rest c = (case card_cur c of None \<Rightarrow> [] | Some (p, pos) \<Rightarrow> drop pos (old_file c p))"

definition card_env :: "card \<Rightarrow> env" where
  "card_env c0 tr c = (case c of
     Fs (FsRead n) \<Rightarrow>
       (let d = take (unat n) (open_rest (card_of c0 tr)) in (reply_rc (int (length d)))\<lparr>r_data := d\<rparr>)
   | Fs (FsStat p) \<Rightarrow> (reply_rc 0)\<lparr>r_size := of_nat (length (old_file (card_of c0 tr) p))\<rparr>
   | Psa PsaHashFinish \<Rightarrow> (reply_rc 0)\<lparr>r_data := replicate 32 171\<rparr>
   | _ \<Rightarrow> sim_env [] tr c)"

lemma card_env_ok: "card_ok (card_env c0) c0"
  unfolding card_ok_def
proof (intro allI conjI impI)
  fix tr p pos bs and n :: u32
  assume c: "card_cur (card_of c0 tr) = Some (p, pos) \<and> card_files (card_of c0 tr) p = Some bs \<and> pos \<le> length bs"
  then have "open_rest (card_of c0 tr) = drop pos bs" by (simp add: open_rest_def old_file_def)
  with c show "read_reply bs pos (unat n) (card_env c0 tr (Fs (FsRead n)))"
    unfolding read_reply_def
    by (intro disjI2 exI [of _ "min (unat n) (length bs - pos)"])
      (auto simp: card_env_def Let_def reply_rc_def min_def)
next
  fix tr p bs
  assume "card_files (card_of c0 tr) p = Some bs"
  then show "r_size (card_env c0 tr (Fs (FsStat p))) = of_nat (length bs)"
    by (simp add: card_env_def reply_rc_def old_file_def)
qed

lemma card_env_works:
  "network_ok (card_env c0)" "card_takes (card_env c0)" "upgrade_works (card_env c0)" "digests_32 (card_env c0)"
  by (simp_all add: network_ok_def card_takes_def upgrade_works_def digests_32_def card_env_def
      sim_env_def reply_rc_def Let_def)

text \<open>A digest of 32 bytes that depends on the file: its sum in the first byte.\<close>

definition sum_digest :: "byte list \<Rightarrow> byte list" where
  "sum_digest d = sum_list d # replicate 31 0"

definition sum_card_env :: "card \<Rightarrow> env" where
  "sum_card_env c0 tr c =
     (if c = Psa PsaHashFinish then (reply_rc 0)\<lparr>r_data := sum_digest (hash_input tr)\<rparr> else card_env c0 tr c)"

text \<open>A card with a file of four bytes under the name: the fourth stays behind a body of three.\<close>

definition used_card :: card where
  "used_card = \<lparr>card_files = [on_card ''a'' \<mapsto> [9, 9, 9, 9]], card_cur = None\<rparr>"

lemma used_card_old: "old_file (card_of used_card (trace io0)) (on_card ''a'') = [9, 9, 9, 9]"
  by (simp add: old_file_def used_card_def io0_def)

theorem update_completes_witness:
  "\<exists>u t x. run_state (cmd_http_dl (card_env used_card) two_pieces 5 (replicate 65 CHR ''?'')
      [''http_dl'', ''h'', ''80'', ''/x'', ''a'']) io0 = (Some 0, u) \<and>
    run_state (cmd_upgrade (card_env used_card) 5 (\<lambda>_. 1) [''upgrade'', ''a'']) u = (Some 0, t) \<and>
    (Boot SysRebootWarm, x) \<in> set (trace t) \<and> flash_holds (\<lambda>_. 0) [1, 2, 3, 9] (trace t)"
proof -
  have content: "[1, 2, 3, 9] = [1, 2, 3] @ drop (length [1, 2, 3 :: byte]) (old_file (card_of used_card (trace io0)) (on_card ''a''))"
    by (simp add: used_card_old)
  show ?thesis
    by (rule update_completes [OF card_env_ok card_env_works two_pieces_fit two_pieces_payload [symmetric] content]) simp_all
qed

lemma sum_card_env_ok:
  "card_ok (sum_card_env c0) c0" "network_ok (sum_card_env c0)" "card_takes (sum_card_env c0)"
  "upgrade_works (sum_card_env c0)" "digests_32 (sum_card_env c0)" "psa_hashes sum_digest (sum_card_env c0)"
  "\<And>d. length (sum_digest d) = 32"
proof -
  have eq: "sum_card_env c0 tr (Fs x) = card_env c0 tr (Fs x)" for tr x by (simp add: sum_card_env_def)
  show "card_ok (sum_card_env c0) c0" using card_env_ok [of c0] unfolding card_ok_def eq .
qed (use card_env_works [of c0] in \<open>simp_all add: sum_card_env_def network_ok_def card_takes_def
  upgrade_works_def digests_32_def psa_hashes_def sum_digest_def reply_rc_def\<close>)

theorem download_shows_digest_witness:
  "\<exists>u content. run_state (cmd_http_dl (sum_card_env used_card) two_pieces 5 (replicate 65 CHR ''?'')
      [''http_dl'', ''h'', ''80'', ''/x'', ''a'']) io0 = (Some 0, u) \<and>
    card_files (card_of used_card (trace u)) (on_card ''a'') = Some content \<and>
    (failed hash_kind (trace u) = 0 \<longrightarrow> printed (trace u) = [digest_line (sum_digest content) (on_card ''a'')])"
proof -
  have content: "[1, 2, 3, 9] = overwrite (old_file (card_of used_card (trace io0)) (on_card ''a'')) 0 [1, 2, 3]"
    by (simp add: used_card_old overwrite_def)
  have fuel: "length [1, 2, 3, 9 :: byte] < 5" and g: "length (replicate 65 CHR ''?'') = 65" by simp_all
  from cmd_download_returns [OF sum_card_env_ok(1-5) two_pieces_fit two_pieces_payload [symmetric] content fuel g]
  obtain u where u: "run_state (cmd_http_dl (sum_card_env used_card) two_pieces 5 (replicate 65 CHR ''?'')
      [''http_dl'', ''h'', ''80'', ''/x'', ''a'']) io0 = (Some 0, u)" by blast
  from download_shows_digest [OF sum_card_env_ok(1,6,5) two_pieces_fit refl refl g u] u show ?thesis
    by (auto simp: printed_def io0_def)
qed

end
