(* ===== verification/BtStop.thy ===== *)
theory BtStop
  imports BtCk
begin

text \<open>
  Stopping the reboot test of \<open>src/ble_rc.c\<close>: the thread returns to its semaphore within the
  second in which the flag is cleared, whatever else happens, and what the stop leaves
  behind at the relay.
\<close>

section \<open>Definitions\<close>

text \<open>
  Time is counted in the one-second sleeps of the test. From second \<open>T\<close> on the flag is clear
  whenever the other contexts have run: the stop command came, and nobody else sets the flag.
\<close>

definition stopped_from :: "nat \<Rightarrow> ('a ble_st_scheme \<Rightarrow> 'a ble_st_scheme) \<Rightarrow> bool" where
  "stopped_from T ifc \<longleftrightarrow> (\<forall>s. T \<le> seconds (trace s) \<longrightarrow> \<not> g_bt_ck_running (ifc s))"

text \<open>Rounds of the test, as the relay sees them.\<close>

definition power_cycles :: "nat \<Rightarrow> cstr list" where
  "power_cycles k = concat (replicate k [set_url 0, set_url 1])"

lemma power_cycles_0 [simp]: "power_cycles 0 = []"
  by (simp add: power_cycles_def)

lemma power_cycles_snoc: "power_cycles k @ [set_url 0, set_url 1] = power_cycles (Suc k)"
  by (induction k) (simp_all add: power_cycles_def)

section \<open>Time\<close>

lemma sleep_in_time:
  assumes "own_seconds ifc" and "stopped_from T ifc" and "run_state (bt_ck_k_sleep env ifc n) s = (u, t)"
  shows "seconds (trace s) < seconds (trace t) \<and> seconds (trace t) \<le> max T (Suc (seconds (trace s))) \<and>
    (g_bt_ck_running t \<longrightarrow> seconds (trace t) < T)"
  using assms(3)
proof (induction n arbitrary: s)
  case 0
  with assms(1,2) show ?case
    by (auto simp: bt_ck_k_sleep.simps run_iff own_seconds_def stopped_from_def not_le [symmetric])
next
  case (Suc n)
  define s1 where "s1 = ifc (s\<lparr>trace := trace s @ [(Kern (KSleepMs 1000), env (trace s) (Kern (KSleepMs 1000)))]\<rparr>)"
  from assms(1) have sec: "seconds (trace s1) = Suc (seconds (trace s))" by (simp add: s1_def own_seconds_def)
  from assms(2) have run: "g_bt_ck_running s1 \<longrightarrow> seconds (trace s1) < T"
    using sec by (auto simp: s1_def stopped_from_def not_le [symmetric])
  show ?case
  proof (cases "g_bt_ck_running s1")
    case True
    with Suc.prems have "run_state (bt_ck_k_sleep env ifc n) s1 = (u, t)"
      by (simp add: bt_ck_k_sleep.simps run_eval s1_def)
    from Suc.IH [OF this] sec run True show ?thesis by auto
  next
    case False
    with Suc.prems have "t = s1" by (simp add: bt_ck_k_sleep.simps run_eval s1_def)
    with False sec show ?thesis by simp
  qed
qed

lemma set_SK_time:
  "run_state (run_set_SK_v env server v) s = (r, t) \<Longrightarrow>
     seconds (trace t) = seconds (trace s) \<and> g_bt_ck_running t = g_bt_ck_running s"
  by (auto simp: run_set_SK_v_def http_defs run_iff)

lemma wakeup_time:
  assumes "own_seconds ifc" and "stopped_from T ifc" and "run_state (wakeup_adv env ifc sta) s = (r, t)"
  shows "seconds (trace t) = seconds (trace s) \<and> (g_bt_ck_running t \<longrightarrow> seconds (trace t) < T)"
  using assms
  by (auto simp: wakeup_adv_def run_iff adv_defs own_seconds_def stopped_from_def not_le [symmetric])

section \<open>The waits of the test\<close>

definition waiting :: "nat \<Rightarrow> nat \<Rightarrow> int \<Rightarrow> 'a ble_st_scheme \<Rightarrow> bool" where
  "waiting lo T cnt s \<longleftrightarrow> lo \<le> seconds (trace s) \<and> seconds (trace s) < T"

definition waited :: "nat \<Rightarrow> nat \<Rightarrow> bool \<Rightarrow> 'a ble_st_scheme \<Rightarrow> bool" where
  "waited lo T v s \<longleftrightarrow> lo \<le> seconds (trace s) \<and> seconds (trace s) \<le> T \<and>
     (g_bt_ck_running s \<longrightarrow> seconds (trace s) < T)"

lemma wait_body_time:
  assumes "own_seconds ifc" and "stopped_from T ifc" and "waiting lo T cnt s"
    and "run_state (wait_body env ifc sta cnt) s = (x, t)"
  shows "case x of Inl v \<Rightarrow> waited lo T v t | Inr y \<Rightarrow> waiting lo T y t \<and> seconds (trace s) < seconds (trace t)"
proof (cases "g_btrc_st s = BTRC_ST_SECURITY_LV_OK")
  case True
  with assms(3,4) show ?thesis by (auto simp: wait_body_def run_iff waiting_def waited_def)
next
  case False
  with assms(4) obtain r u v w where
    u: "run_state (if cnt mod 30 = 0 then wakeup_adv env ifc sta else State_Monad.return 0) s = (r, u)"
    and w: "run_state (bt_ck_k_sleep env ifc 1) u = (v, w)"
    and x: "t = w" "x = (if g_bt_ck_running w then Inr (cnt + 1) else Inl False)"
    unfolding wait_body_def by (auto simp: run_bind_iff run_return_iff run_get_field_iff)
  from u have "seconds (trace u) = seconds (trace s)"
    using wakeup_time [OF assms(1,2)] by (auto simp: run_iff)
  with sleep_in_time [OF assms(1,2) w] assms(3) x show ?thesis
    by (auto simp: waiting_def waited_def)
qed

lemma wait_returns:
  assumes "own_seconds ifc" and "stopped_from T ifc" and "waiting lo T 1 s" and "T - seconds (trace s) < fuel"
  shows "\<exists>v t. run_state (wait_rc_connected env ifc sta fuel) s = (Some v, t) \<and> waited lo T v t"
proof -
  have "total_loop (wait_body env ifc sta) (waiting lo T) (waited lo T) (\<lambda>_ s. T - seconds (trace s))"
    using wait_body_time [OF assms(1,2)]
    by unfold_locales (fastforce simp: waiting_def)+
  from total_loop.total [OF this assms(3,4)] show ?thesis by (simp add: wait_rc_connected_def)
qed

section \<open>One turn of the test\<close>

lemma then_running_iff:
  "run_state (then_running m) s = (x, t) \<longleftrightarrow>
     (if g_bt_ck_running s then run_state m s = (x, t) else x = Inl (Some ()) \<and> t = s)"
  by (auto simp: then_running_def run_iff)

text \<open>
  A turn begins before second \<open>T\<close> or, the first one, at the start of the test at second
  \<open>lo\<close>; it leaves the loop stopped.
\<close>

definition testing :: "nat \<Rightarrow> nat \<Rightarrow> unit \<Rightarrow> 'a ble_st_scheme \<Rightarrow> bool" where
  "testing lo T x s \<longleftrightarrow> lo \<le> seconds (trace s) \<and> seconds (trace s) \<le> max T (Suc lo) \<and>
     (g_bt_ck_running s \<longrightarrow> seconds (trace s) < T \<or> seconds (trace s) = lo)"

definition tested :: "nat \<Rightarrow> nat \<Rightarrow> unit option \<Rightarrow> 'a ble_st_scheme \<Rightarrow> bool" where
  "tested lo T v s \<longleftrightarrow> v = Some () \<and> \<not> g_bt_ck_running s \<and> seconds (trace s) \<le> max T (Suc lo)"

lemma wake_and_wait_time:
  assumes "own_seconds ifc" and "stopped_from T ifc" and "seconds (trace s) < T"
    and "lo \<le> seconds (trace s)" and "T - seconds (trace s) < fuel"
    and "run_state (wake_and_wait env ifc sta fuel (do { _ \<leftarrow> bt_ck_k_sleep env ifc n;
           then_running (State_Monad.return (Inr ())) })) s = (x, t)"
  shows "case x of Inl v \<Rightarrow> tested lo T v t | Inr y \<Rightarrow> seconds (trace s) < seconds (trace t) \<and> seconds (trace t) < T"
proof -
  obtain r u where u: "run_state (wakeup_adv env ifc sta) s = (r, u)" by (metis surj_pair)
  with wakeup_time [OF assms(1,2)] have su: "seconds (trace u) = seconds (trace s)" by blast
  with assms(3) have "waiting (seconds (trace s)) T 1 u" by (simp add: waiting_def)
  from wait_returns [OF assms(1,2) this] su assms(5) obtain v w where
    w: "run_state (wait_rc_connected env ifc sta fuel) u = (Some v, w)"
      and sw: "waited (seconds (trace s)) T v w" by fastforce
  from assms(6) u w have m: "run_state (then_running (do { _ \<leftarrow> bt_ck_k_sleep env ifc n;
      then_running (State_Monad.return (Inr ())) })) w = (x, t)"
    by (simp add: wake_and_wait_def run_state_bind)
  show ?thesis
  proof (cases "g_bt_ck_running w")
    case False
    with m sw show ?thesis by (auto simp: then_running_iff tested_def waited_def)
  next
    case True
    with m obtain y v' where v': "run_state (bt_ck_k_sleep env ifc n) w = (y, v')"
      and x: "run_state (then_running (State_Monad.return (Inr ()))) v' = (x, t)"
      by (auto simp: then_running_iff run_bind_iff)
    from sleep_in_time [OF assms(1,2) v'] sw x True show ?thesis
      by (auto simp: then_running_iff run_return_iff tested_def waited_def split: if_splits)
  qed
qed

lemma looper_3_turn:
  assumes "own_seconds ifc" and "stopped_from T ifc" and "testing lo T y s" and "T - lo < fuel"
    and "run_state (looper_3_body env ifc sta server fuel y) s = (x, t)"
  shows "case x of Inl v \<Rightarrow> tested lo T v t
    | Inr z \<Rightarrow> seconds (trace s) < seconds (trace t) \<and> seconds (trace t) < T"
proof (cases "g_bt_ck_running s")
  case False
  with assms(3,5) show ?thesis
    by (auto simp: looper_3_body_def then_running_iff testing_def tested_def)
next
  case True
  let ?rest = "do { _ \<leftarrow> bt_ck_k_sleep env ifc 30; then_running (State_Monad.return (Inr ())) }"
  let ?on = "do { _ \<leftarrow> run_set_SK_v env server 1; _ \<leftarrow> bt_ck_k_sleep env ifc 5;
      then_running (wake_and_wait env ifc sta fuel ?rest) }"
  from True assms(5) obtain r a b c where a: "run_state (run_set_SK_v env server 0) s = (r, a)"
    and c: "run_state (bt_ck_k_sleep env ifc 5) a = (b, c)"
    and on: "run_state (then_running ?on) c = (x, t)"
    unfolding looper_3_body_def by (auto simp: then_running_iff run_bind_iff)
  from set_SK_time [OF a] sleep_in_time [OF assms(1,2) c] assms(3) True
  have sc: "seconds (trace s) < seconds (trace c)" "seconds (trace c) \<le> max T (Suc lo)"
    "g_bt_ck_running c \<longrightarrow> seconds (trace c) < T" "lo \<le> seconds (trace s)"
    by (auto simp: testing_def)
  show ?thesis
  proof (cases "g_bt_ck_running c")
    case False
    with on sc show ?thesis by (simp add: then_running_iff tested_def)
  next
    case True
    with on obtain r d e f where d: "run_state (run_set_SK_v env server 1) c = (r, d)"
      and f: "run_state (bt_ck_k_sleep env ifc 5) d = (e, f)"
      and w: "run_state (then_running (wake_and_wait env ifc sta fuel ?rest)) f = (x, t)"
      by (auto simp: then_running_iff run_bind_iff)
    from set_SK_time [OF d] sleep_in_time [OF assms(1,2) f] sc True
    have sf: "seconds (trace s) < seconds (trace f)" "seconds (trace f) \<le> T"
      "g_bt_ck_running f \<longrightarrow> seconds (trace f) < T" by auto
    show ?thesis
    proof (cases "g_bt_ck_running f")
      case False
      with w sf show ?thesis by (simp add: then_running_iff tested_def)
    next
      case True
      with w have "run_state (wake_and_wait env ifc sta fuel ?rest) f = (x, t)"
        by (simp add: then_running_iff)
      moreover have "T - seconds (trace f) < fuel" "seconds (trace f) < T" "lo \<le> seconds (trace f)"
        using sf sc assms(4) True by linarith+
      ultimately have "case x of Inl v \<Rightarrow> tested lo T v t
          | Inr y \<Rightarrow> seconds (trace f) < seconds (trace t) \<and> seconds (trace t) < T"
        by (intro wake_and_wait_time [OF assms(1,2)])
      with sf(1) show ?thesis by (cases x) auto
    qed
  qed
qed

lemma bt_ck_looper_3_stops:
  assumes "own_seconds ifc" and "stopped_from T ifc" and "T - seconds (trace s) < fuel"
  shows "\<exists>t. run_state (bt_ck_looper_3 env ifc sta server fuel) s = (Some (), t) \<and>
    \<not> g_bt_ck_running t \<and> seconds (trace t) \<le> max T (Suc (seconds (trace s)))"
proof -
  let ?lo = "seconds (trace s)" and ?s = "s\<lparr>g_bt_ck_running := True\<rparr>"
  have "total_loop (looper_3_body env ifc sta server fuel) (testing ?lo T) (tested ?lo T)
      (\<lambda>_ s. T - seconds (trace s))"
    using looper_3_turn [OF assms(1,2) _ assms(3)]
    by unfold_locales (fastforce simp: testing_def)+
  moreover have "testing ?lo T () ?s" by (simp add: testing_def)
  ultimately obtain t where
    "run_state (loop_fuel fuel (looper_3_body env ifc sta server fuel) ()) ?s = (Some (Some ()), t)"
    "tested ?lo T (Some ()) t"
    using total_loop.total [of _ _ _ _ "()" ?s fuel] assms(3) by (fastforce simp: tested_def)
  then show ?thesis
    by (simp add: bt_ck_looper_3_def run_looper_def run_state_bind run_modify tested_def)
qed

section \<open>Requests\<close>

text \<open>Interference that sends the relay no request.\<close>

definition own_requests :: "('a ble_st_scheme \<Rightarrow> 'a ble_st_scheme) \<Rightarrow> bool" where
  "own_requests ifc \<longleftrightarrow> (\<forall>s. \<exists>es. trace (ifc s) = trace s @ es \<and> requests es = [])"

text \<open>
  The result of a connection is ignored, so a request may be missing where one failed: with
  \<open>n\<close> network failures before, there are more now, or the requests are \<open>q\<close>.
\<close>

definition asked :: "nat \<Rightarrow> cstr list \<Rightarrow> 'a ble_st_scheme \<Rightarrow> bool" where
  "asked n q s \<longleftrightarrow> n \<le> failed net_kind (trace s) \<and> (requests (trace s) = q \<or> n < failed net_kind (trace s))"

lemma asked_ifc: "own_requests ifc \<Longrightarrow> asked n q s \<Longrightarrow> asked n q (ifc s)"
proof -
  assume "own_requests ifc"
  then obtain es where "trace (ifc s) = trace s @ es" "requests es = []" unfolding own_requests_def by blast
  then show "asked n q s \<Longrightarrow> asked n q (ifc s)" by (auto simp: asked_def)
qed

lemma asked_simps [simp]:
  "asked n q (s\<lparr>trace := trace s @ [(Kern c, r)]\<rparr>) = asked n q s"
  "asked n q (s\<lparr>trace := trace s @ [(Bt b, r)]\<rparr>) = asked n q s"
  "asked n q (s\<lparr>g_wakeup_adv_mode := w\<rparr>) = asked n q s"
  "asked n q (s\<lparr>is_adv_running := w\<rparr>) = asked n q s"
  "asked n q (s\<lparr>g_rc_last_paired_addr := a\<rparr>) = asked n q s"
  by (simp_all add: asked_def)

text \<open>Sleeping and waking up ask for nothing; setting the relay is one request.\<close>

lemma sleep_requests: "own_requests ifc \<Longrightarrow> preserves (asked n q) (bt_ck_k_sleep env ifc m)"
  by (induction m) (auto simp: bt_ck_k_sleep.simps asked_ifc intro!: pres_rules)

lemma sleep_grows:
  assumes "own_requests ifc" and "run_state (bt_ck_k_sleep env ifc m) s = (u, t)"
  shows "\<exists>es. trace t = trace s @ es \<and> requests es = []"
proof -
  have "\<exists>es. trace (ifc x) = trace s @ es \<and> requests es = []"
    if "\<exists>es. trace x = trace s @ es \<and> requests es = []" for x
    using that assms(1) unfolding own_requests_def by (metis append_assoc append_Nil2 requests_append)
  moreover have "\<exists>es. trace (x\<lparr>trace := trace x @ [(Kern c, r)]\<rparr>) = trace s @ es \<and> requests es = []"
    if "\<exists>es. trace x = trace s @ es \<and> requests es = []" for x :: "'a ble_st_scheme" and c r
    using that by auto
  ultimately have "preserves (\<lambda>x. \<exists>es. trace x = trace s @ es \<and> requests es = []) (bt_ck_k_sleep env ifc m)"
    by (induction m) (auto simp: bt_ck_k_sleep.simps intro!: pres_rules)
  from preservesD [OF this _ assms(2)] show ?thesis by simp
qed

lemma set_SK_requests:
  "run_state (run_set_SK_v env server v) s = (r, t) \<Longrightarrow> asked n q s \<Longrightarrow> asked n (q @ [set_url v]) t"
  by (auto simp: run_set_SK_v_def http_defs run_iff asked_def)

lemma wakeup_requests: "own_requests ifc \<Longrightarrow> preserves (asked n q) (wakeup_adv env ifc sta)"
  unfolding wakeup_adv_def adv_defs
  by (intro pres_rules) (simp_all add: asked_ifc)

lemma wake_and_wait_requests:
  assumes "own_requests ifc"
  shows "preserves (asked n q) (wake_and_wait env ifc sta fuel (do {
    _ \<leftarrow> bt_ck_k_sleep env ifc m; then_running (State_Monad.return (Inr ())) }))"
  unfolding wake_and_wait_def wait_rc_connected_def wait_body_def then_running_def
  by (intro pres_rules wakeup_requests [OF assms] sleep_requests [OF assms])

definition cycling :: "nat \<Rightarrow> cstr list \<Rightarrow> unit \<Rightarrow> 'a ble_st_scheme \<Rightarrow> bool" where
  "cycling n q x s \<longleftrightarrow> (\<exists>k. asked n (q @ power_cycles k) s)"

definition cycled :: "nat \<Rightarrow> cstr list \<Rightarrow> unit option \<Rightarrow> 'a ble_st_scheme \<Rightarrow> bool" where
  "cycled n q v s \<longleftrightarrow> (\<exists>k. asked n (q @ power_cycles k) s \<or>
     asked n (q @ power_cycles k @ [set_url 0]) s \<and> v = Some () \<and> \<not> g_bt_ck_running s)"

lemma looper_3_requests:
  assumes "own_requests ifc" and "cycling n q y s"
    and "run_state (looper_3_body env ifc sta server fuel y) s = (x, t)"
  shows "case x of Inl v \<Rightarrow> cycled n q v t | Inr z \<Rightarrow> cycling n q z t"
proof (cases "g_bt_ck_running s")
  case False
  with assms(2,3) show ?thesis
    by (auto simp: looper_3_body_def then_running_iff cycling_def cycled_def)
next
  case True
  let ?rest = "do { _ \<leftarrow> bt_ck_k_sleep env ifc 30; then_running (State_Monad.return (Inr ())) }"
  let ?on = "do { _ \<leftarrow> run_set_SK_v env server 1; _ \<leftarrow> bt_ck_k_sleep env ifc 5;
      then_running (wake_and_wait env ifc sta fuel ?rest) }"
  from assms(2) obtain k where k: "asked n (q @ power_cycles k) s" by (auto simp: cycling_def)
  from True assms(3) obtain r a b c where a: "run_state (run_set_SK_v env server 0) s = (r, a)"
    and c: "run_state (bt_ck_k_sleep env ifc 5) a = (b, c)"
    and on: "run_state (then_running ?on) c = (x, t)"
    unfolding looper_3_body_def by (auto simp: then_running_iff run_bind_iff)
  from preservesD [OF sleep_requests [OF assms(1)] set_SK_requests [OF a k] c]
  have c0: "asked n (q @ power_cycles k @ [set_url 0]) c" by simp
  show ?thesis
  proof (cases "g_bt_ck_running c")
    case False
    with on c0 show ?thesis by (auto simp: then_running_iff cycled_def)
  next
    case True
    with on obtain r d e f where d: "run_state (run_set_SK_v env server 1) c = (r, d)"
      and f: "run_state (bt_ck_k_sleep env ifc 5) d = (e, f)"
      and w: "run_state (then_running (wake_and_wait env ifc sta fuel ?rest)) f = (x, t)"
      by (auto simp: then_running_iff run_bind_iff)
    from preservesD [OF sleep_requests [OF assms(1)] set_SK_requests [OF d c0] f]
    have f1: "asked n (q @ power_cycles (Suc k)) f" by (simp add: power_cycles_snoc [symmetric])
    then have "asked n (q @ power_cycles (Suc k)) t"
      using w preservesD [OF wake_and_wait_requests [OF assms(1)] f1] by (auto simp: then_running_iff split: if_splits)
    then show ?thesis by (auto simp: cycled_def cycling_def split: sum.splits)
  qed
qed

section \<open>Properties\<close>

text \<open>
  C15: A stopped test ends. Whatever the other contexts do while it sleeps, and wherever in its
  nested loops the stop meets it: once the flag stays clear from second \<open>T\<close> on, the test has
  returned by then, or with the first second it sleeps if it was started later.
\<close>

theorem stopped_test_ends:
  assumes "own_seconds ifc" and "stopped_from T ifc" and "T - seconds (trace s) < fuel"
  shows "\<exists>t. run_state (bt_ck_looper_round env ifc sta server fuel) s = (Some (), t) \<and>
    \<not> g_bt_ck_running t \<and> seconds (trace t) \<le> max T (Suc (seconds (trace s)))"
proof -
  define u where "u = ifc (s\<lparr>trace := trace s @ [(Bt KSemTake, env (trace s) (Bt KSemTake))]\<rparr>)"
  from assms(1) have "seconds (trace u) = seconds (trace s)" by (simp add: u_def own_seconds_def)
  with bt_ck_looper_3_stops [OF assms(1,2), of u fuel env sta server] assms(3)
  show ?thesis by (auto simp: bt_ck_looper_round_def run_eval u_def)
qed

text \<open>
  For the witnesses: in every sleep the host disconnects, and from second \<open>T\<close> on the stop
  command is given.
\<close>

definition busy :: "nat \<Rightarrow> 'a ble_st_scheme \<Rightarrow> 'a ble_st_scheme" where
  "busy T s = (let t = final (disconnected (sim_env []) (Some phone) 0x13) s
     in if T \<le> seconds (trace t) then final cmd_auto_reboot_stop t else t)"

lemma disconnected_quiet:
  "run_state (disconnected env (Some a) reason) s = (u, t) \<Longrightarrow>
     seconds (trace t) = seconds (trace s) \<and> (\<exists>es. trace t = trace s @ es \<and> requests es = [])"
  by (auto simp: disconnected_def run_iff)

lemma flag_cleared:
  "final cmd_auto_reboot_stop s = s\<lparr>g_bt_ck_running := False\<rparr>"
  by (simp add: final_def cmd_auto_reboot_stop_def run_eval)

lemma busy_ok:
  fixes T :: nat
  defines "ifc \<equiv> busy T :: 'a ble_st_scheme \<Rightarrow> 'a ble_st_scheme"
  shows "own_seconds ifc" "own_requests ifc" "stopped_from T ifc"
proof -
  have "seconds (trace (final (disconnected (sim_env []) (Some phone) 0x13) s)) = seconds (trace s) \<and>
      (\<exists>es. trace (final (disconnected (sim_env []) (Some phone) 0x13) s) = trace s @ es \<and> requests es = [])"
    for s :: "'a ble_st_scheme"
    by (rule disconnected_quiet [OF run_result])
  then show "own_seconds ifc" "own_requests ifc" "stopped_from T ifc"
    by (simp_all add: ifc_def own_seconds_def own_requests_def stopped_from_def busy_def Let_def flag_cleared)
qed

theorem stopped_test_ends_witness:
  "\<exists>t. run_state (bt_ck_looper_round (sim_env []) (busy 20) True ''10.0.0.1'' 21) ble0 = (Some (), t) \<and>
    \<not> g_bt_ck_running t \<and> seconds (trace t) \<le> 20"
  using stopped_test_ends [OF busy_ok(1,3), of 20 ble0 21 "sim_env []" True "''10.0.0.1''"]
  by (simp add: ble0_def)

text \<open>
  C21: What the test does to the host's power, on every platform: it asks the relay for "off",
  "on" in turn, starting with "off", and only a test that was stopped has asked for "off"
  last; unless a connection failed meanwhile (whose request the code omits without noticing).
  The other contexts may do anything but send requests while the test sleeps.
\<close>

theorem test_power_cycles:
  assumes "own_requests ifc" and "run_state (bt_ck_looper_3 env ifc sta server fuel) s = (v, t)"
  shows "failed net_kind (trace s) < failed net_kind (trace t) \<or>
    (\<exists>k. requests (trace t) = requests (trace s) @ power_cycles k \<or>
      requests (trace t) = requests (trace s) @ power_cycles k @ [set_url 0] \<and> v = Some () \<and> \<not> g_bt_ck_running t)"
proof -
  let ?q = "requests (trace s)" and ?n = "failed net_kind (trace s)" and ?s = "s\<lparr>g_bt_ck_running := True\<rparr>"
  have l: "loop_contract (looper_3_body env ifc sta server fuel) (cycling ?n ?q) (cycled ?n ?q)"
    using looper_3_requests [OF assms(1)] by unfold_locales fastforce+
  have i: "cycling ?n ?q () ?s" by (auto simp: cycling_def asked_def intro: exI [of _ 0])
  from assms(2) obtain l' where
    run: "run_state (loop_fuel fuel (looper_3_body env ifc sta server fuel) ()) ?s = (l', t)"
    and v: "v = (case l' of None \<Rightarrow> None | Some v \<Rightarrow> v)"
    by (auto simp: bt_ck_looper_3_def run_looper_def run_iff)
  show ?thesis
  proof (cases l')
    case None
    with loop_contract.running [OF l i] run show ?thesis by (auto simp: cycling_def asked_def)
  next
    case (Some w)
    with loop_contract.partial [OF l i] run v show ?thesis by (auto simp: cycled_def asked_def)
  qed
qed

definition short_test :: ble_st where
  "short_test = final (bt_ck_looper_3 (sim_env []) (busy 15) True ''10.0.0.1'' 9) ble0"

theorem test_power_cycles_witness:
  "\<exists>k. requests (trace short_test) = power_cycles k \<or> requests (trace short_test) = power_cycles k @ [set_url 0]"
proof -
  have "failed net_kind (trace short_test) = 0" by code_simp
  with test_power_cycles [OF busy_ok(2) [of 15] run_result, where env = "sim_env []" and sta = True
      and server = "''10.0.0.1''" and fuel = 9 and s = ble0]
  show ?thesis by (auto simp: ble0_def short_test_def)
qed

text \<open>
  C27: Stopping does not restore the power, on every platform: a test that is stopped within its
  first six seconds returns without having asked for "on"; it has asked for "off", unless the
  connection failed. The other contexts may do anything while it sleeps but send requests,
  sleep seconds in its name or set the flag again.
\<close>

theorem stop_leaves_host_off:
  assumes "own_seconds ifc" and "own_requests ifc" and "stopped_from T ifc"
    and "T \<le> seconds (trace s) + 6" and "0 < fuel"
  shows "\<exists>t. run_state (bt_ck_looper_3 env ifc sta server fuel) s = (Some (), t) \<and>
    (requests (trace t) = requests (trace s) @ [set_url 0] \<or>
     requests (trace t) = requests (trace s) \<and> failed net_kind (trace s) < failed net_kind (trace t))"
proof -
  let ?s = "s\<lparr>g_bt_ck_running := True\<rparr>"
  obtain r a where a: "run_state (run_set_SK_v env server 0) ?s = (r, a)" by (metis surj_pair)
  obtain b c where c: "run_state (bt_ck_k_sleep env ifc 5) a = (b, c)" by (metis surj_pair)
  from set_SK_time [OF a] sleep_in_time [OF assms(1,3) c] bt_ck_sleep_cases(2) [OF assms(1) c] assms(4)
  have stop: "\<not> g_bt_ck_running c" by auto
  from sleep_grows [OF assms(2) c] obtain es where es: "trace c = trace a @ es" "requests es = []" by blast
  from a have "requests (trace a) = requests (trace s) @ [set_url 0] \<or>
     requests (trace a) = requests (trace s) \<and> failed net_kind (trace s) < failed net_kind (trace a)"
    by (auto simp: run_set_SK_v_def http_defs run_iff)
  with es have "requests (trace c) = requests (trace s) @ [set_url 0] \<or>
     requests (trace c) = requests (trace s) \<and> failed net_kind (trace s) < failed net_kind (trace c)"
    by auto
  moreover obtain n where "fuel = Suc n" using assms(5) by (cases fuel) auto
  ultimately show ?thesis
    using a c stop
    by (simp add: bt_ck_looper_3_def run_looper_def looper_3_body_def then_running_def run_eval)
qed

theorem stop_leaves_host_off_witness:
  "\<exists>t. run_state (bt_ck_looper_3 (sim_env []) (busy 3) True ''10.0.0.1'' 1) ble0 = (Some (), t) \<and>
    (requests (trace t) = [''/set?Relay=0''] \<or> requests (trace t) = [] \<and> 0 < failed net_kind (trace t))"
  using stop_leaves_host_off [OF busy_ok(1,2,3), of 3 ble0 1 "sim_env []" True "''10.0.0.1''"]
  by (simp add: ble0_def set_url_def)

end
