(* ===== verification/Shell.thy ===== *)
theory Shell
  imports BtCk SdSpeed Card
begin

text \<open>
  The shell: the commands the files register (\<open>SHELL_CMD_REGISTER\<close>) and sessions of them.
  The commands of \<open>src/ble_rc.c\<close> act on the remote, those of \<open>src/upgrade.c\<close>, \<open>src/http_dl.c\<close>
  and \<open>src/sd_speed.c\<close> on the card and the flash.
\<close>

section \<open>Definitions\<close>

text \<open>
  What the commands take from outside: the fuel of their loops, the partition ids, what the
  stack array of the digest holds.
\<close>

record shell_cfg =
  sh_fuel :: nat
  sh_part :: "cstr \<Rightarrow> byte"
  sh_garbage :: "char list"

text \<open>
  A command is registered under a name, with a handler that is given the words of the line.
  A line is its words and, for a download, what the server answers to it.
\<close>

type_synonym 'a command = "cstr \<times> (cstr list \<Rightarrow> http_rsp list \<Rightarrow> ('a ble_st_scheme, int option) state)"
type_synonym line = "cstr list \<times> http_rsp list"

definition returned :: "('s, int) state \<Rightarrow> ('s, int option) state" where
  "returned m = do { r \<leftarrow> m; State_Monad.return (Some r) }"

definition send_command :: "env \<Rightarrow> 'a command" where
  "send_command env = (''send'', \<lambda>argv _. returned (cmd_send_key env argv))"

definition auto_reboot_commands :: "env \<Rightarrow> 'a command list" where
  "auto_reboot_commands env =
     [(''auto_reboot_start'', \<lambda>argv _. returned (cmd_auto_reboot_start env)),
      (''auto_reboot_stop'', \<lambda>argv _. returned cmd_auto_reboot_stop)]"

definition start_adv_command :: "env \<Rightarrow> 'a command" where
  "start_adv_command env = (''start_adv'', \<lambda>argv _. returned (cmd_start_adv env argv))"

definition start_wakeup_command :: "env \<Rightarrow> 'a command" where
  "start_wakeup_command env = (''start_wakeup'', \<lambda>argv _. returned (cmd_wakeup env argv))"

definition delete_paired_command :: "env \<Rightarrow> 'a command" where
  "delete_paired_command env = (''delete_paired'', \<lambda>argv _. returned (cmd_delete_paired env))"

definition upgrade_command :: "env \<Rightarrow> shell_cfg \<Rightarrow> 'a command" where
  "upgrade_command env c = (''upgrade'', \<lambda>argv _. cmd_upgrade env (sh_fuel c) (sh_part c) argv)"

definition http_dl_command :: "env \<Rightarrow> shell_cfg \<Rightarrow> 'a command" where
  "http_dl_command env c = (''http_dl'', \<lambda>argv rsps. cmd_http_dl env rsps (sh_fuel c) (sh_garbage c) argv)"

definition sd_speed_command :: "env \<Rightarrow> shell_cfg \<Rightarrow> 'a command" where
  "sd_speed_command env c = (''sd_speed'', \<lambda>argv _. cmd_sd_speed env (sh_fuel c) argv)"

definition remote_commands :: "env \<Rightarrow> 'a command list" where
  "remote_commands env = send_command env # auto_reboot_commands env @
     [start_adv_command env, start_wakeup_command env, delete_paired_command env]"

definition card_commands :: "env \<Rightarrow> shell_cfg \<Rightarrow> 'a command list" where
  "card_commands env c = [upgrade_command env c, http_dl_command env c, sd_speed_command env c]"

text \<open>
  The shell runs the handler registered for the first word; a line without one is refused
  (\<open>ENOEXEC\<close> is 8). A session runs line after line; \<open>None\<close> is a line that has not returned.
\<close>

definition shell_execute :: "env \<Rightarrow> shell_cfg \<Rightarrow> line \<Rightarrow> ('a ble_st_scheme, int option) state" where
  "shell_execute env c l = (case l of
     ([], rsps) \<Rightarrow> State_Monad.return (Some 0)
   | (cmd # args, rsps) \<Rightarrow> (case map_of (remote_commands env @ card_commands env c) cmd of
        None \<Rightarrow> State_Monad.return (Some (- 8))
      | Some handler \<Rightarrow> handler (cmd # args) rsps))"

fun shell_session :: "env \<Rightarrow> shell_cfg \<Rightarrow> line list \<Rightarrow> ('a ble_st_scheme, int list option) state" where
  "shell_session env c [] = State_Monad.return (Some [])"
| "shell_session env c (l # ls) = do {
     r \<leftarrow> shell_execute env c l;
     (case r of
        None \<Rightarrow> State_Monad.return None
      | Some v \<Rightarrow> do {
          q \<leftarrow> shell_session env c ls;
          State_Monad.return (map_option ((#) v) q)
        })
   }"

lemmas command_defs = send_command_def auto_reboot_commands_def start_adv_command_def
  start_wakeup_command_def delete_paired_command_def upgrade_command_def http_dl_command_def
  sd_speed_command_def

section \<open>Keeping an invariant\<close>

lemma preserves_returned [pres_rules]: "preserves J m \<Longrightarrow> preserves J (returned m)"
  unfolding returned_def by (intro pres_rules)

text \<open>A session keeps what every command keeps.\<close>

lemma preserves_execute:
  fixes J :: "'a ble_st_scheme \<Rightarrow> bool"
  assumes "\<And>n h argv rsps. (n, h) \<in> set (remote_commands env @ card_commands env c) \<Longrightarrow> preserves J (h argv rsps)"
  shows "preserves J (shell_execute env c l)"
proof (cases "fst l")
  case Nil
  then show ?thesis by (cases l) (simp add: shell_execute_def preserves_return)
next
  case (Cons cmd args)
  then obtain rsps where l: "l = (cmd # args, rsps)" by (cases l) auto
  show ?thesis
  proof (cases "map_of (remote_commands env @ card_commands env c :: 'a command list) cmd")
    case None
    with l show ?thesis by (simp add: shell_execute_def preserves_return del: map_of_append)
  next
    case (Some h)
    from assms [OF map_of_SomeD [OF this], of "cmd # args" rsps] Some l show ?thesis by (simp add: shell_execute_def del: map_of_append)
  qed
qed

lemma preserves_session:
  assumes "\<And>l. l \<in> set ls \<Longrightarrow> preserves J (shell_execute env c l)"
  shows "preserves J (shell_session env c ls)"
  using assms
proof (induction ls)
  case Nil
  show ?case unfolding shell_session.simps by (rule preserves_return)
next
  case (Cons l ls)
  then show ?case unfolding shell_session.simps by (intro pres_rules) auto
qed

section \<open>What the remote's commands leave alone\<close>

text \<open>
  A property of the trace that Bluetooth calls, shell output and sleeping do not affect is
  kept by every command of the remote.
\<close>

locale remote_bystander =
  fixes P :: "event list \<Rightarrow> bool"
  assumes bt: "P tr \<Longrightarrow> P (tr @ [(Bt c, r)])"
    and shell: "P tr \<Longrightarrow> P (tr @ [(Shell d, r)])"
    and sleeps: "P tr \<Longrightarrow> P (tr @ [(Kern (KSleepMs n), r)])"
begin

lemma send_keeps: "preserves (\<lambda>s. P (trace s)) (cmd_send_key env argv)"
  unfolding cmd_send_key_def do_send_key_def notify_report_def
  by (intro pres_rules) (simp_all add: bt shell sleeps)

lemma advertise_keeps: "preserves (\<lambda>s. P (trace s)) (try_advertising_start env w n)"
  unfolding try_advertising_start_def adv_defs
  by (intro pres_rules) (simp_all add: bt shell sleeps)

lemma unpair_keeps: "preserves (\<lambda>s. P (trace s)) (cmd_delete_paired env)"
  unfolding cmd_delete_paired_def try_unpair_def adv_defs
  by (intro pres_rules) (simp_all add: bt shell sleeps)

lemma auto_reboot_keeps:
  "preserves (\<lambda>s. P (trace s)) (cmd_auto_reboot_start env)"
  "preserves (\<lambda>s. P (trace s)) cmd_auto_reboot_stop"
  unfolding cmd_auto_reboot_start_def cmd_auto_reboot_stop_def
  by (intro pres_rules; simp add: bt)+

lemma remote_keeps:
  "(n, h) \<in> set (remote_commands env) \<Longrightarrow> preserves (\<lambda>s. P (trace s)) (h argv rsps)"
  unfolding remote_commands_def command_defs cmd_start_adv_def cmd_wakeup_def
  by (auto intro!: pres_rules send_keeps advertise_keeps unpair_keeps auto_reboot_keeps)

end

text \<open>The resources, the card and the boot state are such properties.\<close>

definition holds_as :: "event list \<Rightarrow> event list \<Rightarrow> bool" where
  "holds_as tr0 tr \<longleftrightarrow> same_resources tr0 tr \<and> addrinfos tr = addrinfos tr0"

interpretation resources: remote_bystander "holds_as tr0"
  by unfold_locales (auto simp: holds_as_def same_resources_def)

definition card_and_boot :: "card \<Rightarrow> event list \<Rightarrow> event list \<Rightarrow> bool" where
  "card_and_boot c0 tr0 tr \<longleftrightarrow> card_of c0 tr = card_of c0 tr0 \<and> boots tr = boots tr0"

interpretation card_boot: remote_bystander "card_and_boot c0 tr0"
  by unfold_locales (auto simp: card_and_boot_def)

section \<open>What the card's commands leave alone\<close>

text \<open>
  The other way round: an invariant of the remote that only Bluetooth calls affect is kept
  by the commands of the card.
\<close>

fun no_bt :: "call \<Rightarrow> bool" where
  "no_bt (Bt c) = False"
| "no_bt c = True"

locale card_bystander =
  fixes J :: "'a ble_st_scheme \<Rightarrow> bool"
  assumes other: "no_bt c \<Longrightarrow> J s \<Longrightarrow> J (s\<lparr>trace := trace s @ [(c, r)]\<rparr>)"
    and err: "J s \<Longrightarrow> J (s\<lparr>errno := e\<rparr>)"
begin

lemma keep_ext [intro]: "no_bt c \<Longrightarrow> preserves J (ext env c)"
  by (rule preserves_ext) (rule other)

lemma keep_posix [intro]: "no_bt c \<Longrightarrow> preserves J (ext_posix env c)"
  using err [OF other] by (intro preserves_ext_posix) simp

lemma keep_deliver: "preserves J (deliver env rsps ctx)"
proof (induction rsps arbitrary: ctx)
  case Nil
  show ?case unfolding deliver.simps by (intro pres_rules)
next
  case (Cons rsp rsps)
  show ?case
    unfolding deliver.simps http_dl_response_cb_def report_progress_def print_progress_def
    by (intro pres_rules Cons.IH) (auto intro: other)
qed

lemma keep_download: "preserves J (cmd_http_dl env rsps fuel garbage argv)"
  unfolding cmd_http_dl_def http_dl_file_def http_dl_get_req_def http_dl_socket_connect_def
    http_dl_socket_init_def dl_digest_def calculate_file_sha256_def sha_prepare_def sha_body_def
    sha_finish_def print_sha256_sum_def
  by (intro keep_posix keep_ext pres_rules keep_deliver) simp_all

lemma keep_upgrade: "preserves J (cmd_upgrade env fuel part argv)"
  unfolding cmd_upgrade_def perform_ota_upgrade_from_file_def get_upgrade_target_partition_id_def
    write_ota_file_to_partition_def ota_prepare_def ota_body_def ota_cleanup_def trigger_upgrade_def
  by (intro keep_posix keep_ext pres_rules) simp_all

lemma keep_sd_speed: "preserves J (cmd_sd_speed env fuel argv)"
  unfolding cmd_sd_speed_def sd_test_def sd_write_phase_def sd_read_phase_def sd_write_body_def sd_read_body_def
  by (intro keep_posix keep_ext pres_rules) simp_all

lemma card_keeps: "(n, h) \<in> set (card_commands env c) \<Longrightarrow> preserves J (h argv rsps)"
  unfolding card_commands_def command_defs
  by (auto intro: keep_download keep_upgrade keep_sd_speed)

end

interpretation remote: card_bystander "adv_ok :: 'a ble_st_scheme \<Rightarrow> bool"
proof
  show "adv_ok (s\<lparr>trace := trace s @ [(c, r)]\<rparr>)" if "no_bt c" "adv_ok s" for c r and s :: "'a ble_st_scheme"
    using that by (cases c) (simp_all add: adv_ok_def)
  show "adv_ok (s\<lparr>errno := e\<rparr>)" if "adv_ok s" for e and s :: "'a ble_st_scheme"
    using that by (simp add: adv_ok_def)
qed

section \<open>Lines\<close>

text \<open>A line of the remote names none of the card's commands; a download names \<open>http_dl\<close>.\<close>

definition remote_line :: "line \<Rightarrow> bool" where
  "remote_line l \<longleftrightarrow> take 1 (fst l) \<notin> {[''upgrade''], [''http_dl''], [''sd_speed'']}"

definition downloads :: "line list \<Rightarrow> nat" where
  "downloads ls = length (filter (\<lambda>l. take 1 (fst l) = [''http_dl'']) ls)"

lemma downloads_simps [simp]:
  "downloads [] = 0"
  "downloads (l # ls) = (if take 1 (fst l) = [''http_dl''] then Suc (downloads ls) else downloads ls)"
  by (simp_all add: downloads_def)

lemma execute_card_lines:
  "shell_execute env c (''upgrade'' # args, rsps) = cmd_upgrade env (sh_fuel c) (sh_part c) (''upgrade'' # args)"
  "shell_execute env c (''http_dl'' # args, rsps) = cmd_http_dl env rsps (sh_fuel c) (sh_garbage c) (''http_dl'' # args)"
  "shell_execute env c (''sd_speed'' # args, rsps) = cmd_sd_speed env (sh_fuel c) (''sd_speed'' # args)"
  by (simp_all add: shell_execute_def remote_commands_def card_commands_def command_defs)

lemma execute_remote_line:
  fixes J :: "'a ble_st_scheme \<Rightarrow> bool"
  assumes "remote_line l"
    and "\<And>n h argv rsps. (n, h) \<in> set (remote_commands env) \<Longrightarrow> preserves J (h argv rsps)"
  shows "preserves J (shell_execute env c l)"
proof -
  obtain argv rsps where l: "l = (argv, rsps)" by (cases l)
  show ?thesis
  proof (cases argv)
    case Nil
    with l show ?thesis by (simp add: shell_execute_def preserves_return)
  next
    case (Cons cmd args)
    with assms(1) l have none: "map_of (card_commands env c :: 'a command list) cmd = None"
      by (auto simp: remote_line_def card_commands_def command_defs)
    show ?thesis
    proof (cases "map_of (remote_commands env :: 'a command list) cmd")
      case None
      with none Cons l show ?thesis by (simp add: shell_execute_def preserves_return map_add_def)
    next
      case (Some h)
      with none Cons l assms(2) [OF map_of_SomeD [OF Some]] show ?thesis
        by (simp add: shell_execute_def map_add_def)
    qed
  qed
qed

lemma line_cases:
  obtains (remote) "remote_line l"
  | (upgrade) args rsps where "l = (''upgrade'' # args, rsps)"
  | (http_dl) args rsps where "l = (''http_dl'' # args, rsps)"
  | (sd_speed) args rsps where "l = (''sd_speed'' # args, rsps)"
  by (cases l; cases "fst l") (auto simp: remote_line_def)

section \<open>Resources of a session\<close>

lemma upgrade_addrinfos: "preserves (\<lambda>s. addrinfos (trace s) = a) (cmd_upgrade env fuel part argv)"
  unfolding cmd_upgrade_def perform_ota_upgrade_from_file_def get_upgrade_target_partition_id_def
    write_ota_file_to_partition_def ota_prepare_def ota_body_def ota_cleanup_def trigger_upgrade_def
  by (intro pres_rules) simp_all

lemma upgrade_releases:
  assumes "run_state (cmd_upgrade env fuel part argv) s = (Some r, t)"
  shows "same_resources (trace s) (trace t)"
  using assms
  unfolding cmd_upgrade_def perform_ota_upgrade_from_file_def get_upgrade_target_partition_id_def trigger_upgrade_def
  by (auto simp: run_iff Let_def ota_frame_def same_resources_def dest!: write_ota_frame)

lemma sd_speed_addrinfos: "preserves (\<lambda>s. addrinfos (trace s) = a) (cmd_sd_speed env fuel argv)"
  unfolding cmd_sd_speed_def sd_test_def sd_write_phase_def sd_read_phase_def sd_write_body_def sd_read_body_def
  by (intro pres_rules) simp_all

lemma digest_addrinfos: "preserves (\<lambda>s. addrinfos (trace s) = a) (dl_digest env fuel garbage p)"
  unfolding dl_digest_def calculate_file_sha256_def sha_prepare_def sha_body_def sha_finish_def
    print_sha256_sum_def
  by (intro pres_rules) simp_all

lemma get_req_addrinfos:
  "run_state (http_dl_get_req env rsps hostname port path ctx) s = (r, t) \<Longrightarrow>
     addrinfos (trace t) = addrinfos (trace s) \<or> addrinfos (trace t) = addrinfos (trace s) + 1"
  unfolding http_dl_get_req_def http_dl_socket_connect_def http_dl_socket_init_def
  by (auto simp: run_iff dest!: deliver_frame)

lemma download_addrinfos:
  "run_state (http_dl_file env rsps fuel garbage hostname port path name) s = (r, t) \<Longrightarrow>
     addrinfos (trace t) = addrinfos (trace s) \<or> addrinfos (trace t) = addrinfos (trace s) + 1"
  unfolding http_dl_file_def
  by (auto simp: run_iff Let_def dest!: get_req_addrinfos preservesD [OF digest_addrinfos refl])

definition released :: "nat \<Rightarrow> event list \<Rightarrow> event list \<Rightarrow> bool" where
  "released n tr0 tr \<longleftrightarrow> same_resources tr0 tr \<and>
     addrinfos tr0 \<le> addrinfos tr \<and> addrinfos tr \<le> addrinfos tr0 + int n"

lemma download_releases:
  assumes "run_state (http_dl_file env rsps fuel garbage hostname port path name) s = (Some r, t)"
  shows "released 1 (trace s) (trace t)"
proof -
  from assms have "same_resources (trace s) (trace t)"
    unfolding http_dl_file_def
    by (auto simp: run_iff Let_def same_resources_def dest!: http_dl_get_req_frame dl_digest_frame)
  with download_addrinfos [OF assms] show ?thesis by (auto simp: released_def)
qed

lemma released_trans: "released m a b \<Longrightarrow> released n b c \<Longrightarrow> released (m + n) a c"
  by (auto simp: released_def same_resources_def)

lemma execute_releases:
  fixes s t :: "'a ble_st_scheme"
  assumes "run_state (shell_execute env c l) s = (Some r, t)"
  shows "released (downloads [l]) (trace s) (trace t)"
proof (cases l rule: line_cases)
  case remote
  have "preserves (\<lambda>s :: 'a ble_st_scheme. holds_as (trace s0) (trace s)) (shell_execute env c l)" for s0 :: "'a ble_st_scheme"
    by (rule execute_remote_line [OF remote]) (rule resources.remote_keeps)
  from preservesD [OF this _ assms, of s] have "holds_as (trace s) (trace t)" by (simp add: holds_as_def)
  then show ?thesis by (simp add: released_def holds_as_def)
next
  case (upgrade args rsps)
  with assms have r: "run_state (cmd_upgrade env (sh_fuel c) (sh_part c) (''upgrade'' # args)) s = (Some r, t)"
    by (simp add: execute_card_lines)
  from preservesD [OF upgrade_addrinfos refl r] upgrade_releases [OF r] show ?thesis
    by (simp add: released_def)
next
  case (http_dl args rsps)
  with assms have "run_state (cmd_http_dl env rsps (sh_fuel c) (sh_garbage c) (''http_dl'' # args)) s = (Some r, t)"
    by (simp add: execute_card_lines)
  then have "released 1 (trace s) (trace t)"
    unfolding cmd_http_dl_def Let_def
    by (auto simp: run_iff released_def same_resources_def dest!: download_releases)
  then show ?thesis by (simp add: http_dl)
next
  case (sd_speed args rsps)
  with assms have r: "run_state (cmd_sd_speed env (sh_fuel c) (''sd_speed'' # args)) s = (Some r, t)"
    by (simp add: execute_card_lines)
  from preservesD [OF sd_speed_addrinfos refl r] sd_speed_no_leak [OF r] show ?thesis
    by (simp add: released_def)
qed

lemma session_parts:
  fixes s t :: "'a ble_st_scheme"
  assumes "run_state (shell_session env c (l # ls)) s = (Some rcs, t)"
  shows "\<exists>(u :: 'a ble_st_scheme) r rs. run_state (shell_execute env c l) s = (Some r, u) \<and>
    run_state (shell_session env c ls) u = (Some rs, t) \<and> rcs = r # rs"
  using assms by (auto simp: run_iff)

lemma session_Cons:
  "run_state (shell_execute env c l) s = (Some r, u) \<Longrightarrow> run_state (shell_session env c ls) u = (Some rs, t) \<Longrightarrow>
     run_state (shell_session env c (l # ls)) s = (Some (r # rs), t)"
  by (simp add: run_eval)

section \<open>Properties\<close>

text \<open>
  C16: A shell session gives back what it takes. Whatever is typed, however often and whatever
  fails, once the lines have returned every file, flash area, heap block, hash operation,
  directory and socket is released; all that is left behind is the result of the name lookup,
  at most one for each \<open>http_dl\<close>.
\<close>

theorem session_releases:
  assumes "run_state (shell_session env c ls) s = (Some rcs, t)"
  shows "same_resources (trace s) (trace t) \<and>
    addrinfos (trace s) \<le> addrinfos (trace t) \<and> addrinfos (trace t) \<le> addrinfos (trace s) + int (downloads ls)"
proof -
  have "released (downloads ls) (trace s) (trace t)"
    using assms
  proof (induction ls arbitrary: s rcs)
    case Nil
    then show ?case by (simp add: released_def)
  next
    case (Cons l ls)
    from session_parts [OF Cons.prems] obtain u r rs where
      u: "run_state (shell_execute env c l) s = (Some r, u)"
      and t: "run_state (shell_session env c ls) u = (Some rs, t)" by blast
    from released_trans [OF execute_releases [OF u] Cons.IH [OF t]] show ?case by (simp split: if_splits)
  qed
  then show ?thesis by (simp add: released_def)
qed

text \<open>The commands of the remote keep the advertising invariant.\<close>

lemma send_adv_ok: "preserves adv_ok (cmd_send_key env argv)"
  unfolding cmd_send_key_def by (intro pres_rules) (simp add: adv_ok_def)

lemma remote_adv_ok: "(n, h) \<in> set (remote_commands env) \<Longrightarrow> preserves adv_ok (h argv rsps)"
proof -
  have "preserves adv_ok (try_advertising_start env w n)" for w n
    unfolding preserves_def by (blast intro: try_advertising_start_ok)
  moreover have "preserves adv_ok (cmd_delete_paired env)"
    unfolding preserves_def by (blast intro: cmd_delete_paired_ok)
  moreover have "preserves adv_ok (cmd_auto_reboot_start env)" "preserves adv_ok cmd_auto_reboot_stop"
    unfolding cmd_auto_reboot_start_def cmd_auto_reboot_stop_def
    by (intro pres_rules; simp add: adv_ok_def)+
  ultimately show "(n, h) \<in> set (remote_commands env) \<Longrightarrow> preserves adv_ok (h argv rsps)"
    unfolding remote_commands_def command_defs cmd_start_adv_def cmd_wakeup_def
    by (auto intro!: pres_rules send_adv_ok)
qed

text \<open>
  A shell session keeps the advertising invariant: after any lines, in any order, also
  where one of them has not returned yet, the flag of the remote says whether it is on the
  air, and advertising was never started while it was on.
\<close>

theorem session_adv_ok:
  assumes "adv_ok s" and "run_state (shell_session env c ls) s = (r, t)"
  shows "adv_ok t"
proof -
  have "preserves adv_ok (shell_execute env c l)" for l
    by (rule preserves_execute) (auto intro: remote_adv_ok remote.card_keeps)
  from preservesD [OF preserves_session [OF this] assms] show ?thesis .
qed

text \<open>
  C13: Using the remote between download and upgrade does not matter. Take any platform whose card
  keeps files (it reads back what was written and reports its size). If \<open>http_dl\<close> returned 0 and
  no network call and no write failed in it, any lines that are not about the card were
  typed, and \<open>upgrade\<close> then reboots the device, the partition begins with the body that was
  served, followed by what an older, longer file of the name had behind it.
\<close>

theorem update_despite_remote:
  fixes s t u v :: "'a ble_st_scheme"
  assumes "card_ok env c0" and "pieces_fit rsps" and "D = concat (map payload rsps)"
    and "old = old_file (card_of c0 (trace s)) (on_card name)"
    and "content = D @ drop (length D) old" and "length content + 4095 < 2 ^ 32"
    and "run_state (shell_execute env c ([''http_dl'', hostname, port, path, name], rsps)) s = (Some 0, u)"
    and "failed transfer_kind (trace u) = failed transfer_kind (trace s)"
    and "list_all remote_line ls" and "run_state (shell_session env c ls) u = (q, v)"
    and "run_state (shell_execute env c ([''upgrade'', name], [])) v = (r, t)"
    and "\<forall>x. (Boot SysRebootWarm, x) \<notin> set (trace s)"
    and "(Boot SysRebootWarm, x) \<in> set (trace t)"
  shows "flash_holds f0 content (trace t)"
proof -
  have dl: "run_state (cmd_http_dl env rsps (sh_fuel c) (sh_garbage c) [''http_dl'', hostname, port, path, name]) s = (Some 0, u)"
    using assms(7) by (simp add: execute_card_lines)
  have up: "run_state (cmd_upgrade env (sh_fuel c) (sh_part c) [''upgrade'', name]) v = (r, t)"
    using assms(11) by (simp add: execute_card_lines)
  have "preserves (\<lambda>s :: 'a ble_st_scheme. card_and_boot c0 (trace u) (trace s)) (shell_execute env c l)"
    if "l \<in> set ls" for l
    using assms(9) that
    by (intro execute_remote_line card_boot.remote_keeps) (auto simp: list_all_iff)
  from preservesD [OF preserves_session [OF this] _ assms(10)]
  have same: "card_of c0 (trace v) = card_of c0 (trace u)" "boots (trace v) = boots (trace u)"
    by (simp_all add: card_and_boot_def)
  have "boots (trace u) = boots (trace s)"
    using preservesD [OF download_boots _ dl, of "boots (trace s)"] by (simp add: boots_are_def)
  with same assms(12) have no: "\<forall>x. (Boot SysRebootWarm, x) \<notin> set (trace v)"
    by (metis boot_event_iff)
  from cmd_download_on_card [OF assms(2) dl, of c0] assms(3-5,8) same
  have content: "card_files (card_of c0 (trace v)) (on_card name) = Some content"
    by (auto simp: written_def holds_def overwrite_def)
  from up obtain r' where
    "run_state (perform_ota_upgrade_from_file env (sh_fuel c) (sh_part c) (on_card name)) v = (r', t)"
    unfolding cmd_upgrade_def by (auto simp: run_iff Let_def)
  from upgrade_from_card [OF assms(1) content assms(6) this no assms(13)] show ?thesis .
qed

text \<open>
  A session in which everything succeeds: download over a longer file, wake up the host,
  upgrade.
\<close>

definition demo_cfg :: shell_cfg where
  "demo_cfg = \<lparr>sh_fuel = 5, sh_part = (\<lambda>_. 1), sh_garbage = replicate 65 CHR ''?''\<rparr>"

abbreviation demo_dl :: line where
  "demo_dl \<equiv> ([''http_dl'', ''h'', ''80'', ''/x'', ''a''], two_pieces)"

abbreviation demo_wake :: line where
  "demo_wake \<equiv> ([''start_wakeup'', ''10''], [])"

abbreviation demo_up :: line where
  "demo_up \<equiv> ([''upgrade'', ''a''], [])"

abbreviation demo_env :: env where
  "demo_env \<equiv> card_env used_card"

lemma demo_old: "old_file (card_of used_card (trace (ble0 :: ble_st))) (on_card ''a'') = [9, 9, 9, 9]"
  by (simp add: old_file_def used_card_def ble0_def)

lemma demo_session:
  "\<exists>(u :: ble_st) v t x. run_state (shell_execute demo_env demo_cfg demo_dl) ble0 = (Some 0, u) \<and>
     failed transfer_kind (trace u) = 0 \<and>
     run_state (shell_session demo_env demo_cfg [demo_wake]) u = (Some [0], v) \<and>
     run_state (shell_execute demo_env demo_cfg demo_up) v = (Some 0, t) \<and>
     (Boot SysRebootWarm, x) \<in> set (trace t)"
proof -
  have content: "[1, 2, 3, 9] = overwrite (old_file (card_of used_card (trace (ble0 :: ble_st))) (on_card ''a'')) 0 [1, 2, 3]"
    by (simp add: demo_old overwrite_def)
  have n: "length [1, 2, 3, 9 :: byte] < 5" "length (replicate 65 CHR ''?'') = 65" by simp_all
  from cmd_download_returns [OF card_env_ok card_env_works two_pieces_fit two_pieces_payload [symmetric] content n,
    of "''http_dl''" "''h''" "''80''" "''/x''"]
  obtain u :: ble_st where
    dl: "run_state (cmd_http_dl demo_env two_pieces 5 (replicate 65 CHR ''?'') [''http_dl'', ''h'', ''80'', ''/x'', ''a'']) ble0 = (Some 0, u)"
    and f: "card_files (card_of used_card (trace u)) (on_card ''a'') = Some [1, 2, 3, 9]"
    and nf: "failed transfer_kind (trace u) = failed transfer_kind (trace (ble0 :: ble_st))"
    by (auto simp: holds_def)
  obtain r and v :: ble_st where w: "run_state (cmd_wakeup demo_env [''start_wakeup'', ''10'']) u = (r, v)"
    by (metis surj_pair)
  then have "r = 0" by (auto simp: cmd_wakeup_def run_iff)
  with w have wake: "run_state (shell_session demo_env demo_cfg [demo_wake]) u = (Some [0], v)"
    by (simp add: shell_execute_def remote_commands_def card_commands_def command_defs returned_def run_eval)
  have "preserves (\<lambda>s :: ble_st. card_and_boot used_card (trace u) (trace s)) (shell_execute demo_env demo_cfg demo_wake)"
    by (rule execute_remote_line) (auto simp: remote_line_def intro: card_boot.remote_keeps)
  then have "preserves (\<lambda>s :: ble_st. card_and_boot used_card (trace u) (trace s)) (shell_session demo_env demo_cfg [demo_wake])"
    by (intro preserves_session) auto
  from preservesD [OF this _ wake] f
  have "card_files (card_of used_card (trace v)) (on_card ''a'') = Some [1, 2, 3, 9]"
    by (simp add: card_and_boot_def)
  from cmd_upgrade_from_card [OF card_env_ok card_env_works(3) _ _ _ this, of 5 "\<lambda>_. 1" "''upgrade''"]
  obtain t x where "run_state (cmd_upgrade demo_env 5 (\<lambda>_. 1) [''upgrade'', ''a'']) v = (Some 0, t)"
    "(Boot SysRebootWarm, x) \<in> set (trace t)" by fastforce
  with dl wake nf show ?thesis by (auto simp: execute_card_lines demo_cfg_def ble0_def)
qed

theorem update_despite_remote_witness:
  "\<exists>v t. run_state (shell_execute demo_env demo_cfg demo_up) v = (Some 0, t :: ble_st) \<and>
     flash_holds (\<lambda>_. 0) [1, 2, 3, 9] (trace t)"
proof -
  from demo_session obtain u v t :: ble_st and x where
    u: "run_state (shell_execute demo_env demo_cfg demo_dl) ble0 = (Some 0, u)"
    and nf: "failed transfer_kind (trace u) = 0"
    and v: "run_state (shell_session demo_env demo_cfg [demo_wake]) u = (Some [0], v)"
    and t: "run_state (shell_execute demo_env demo_cfg demo_up) v = (Some 0, t)"
    and x: "(Boot SysRebootWarm, x) \<in> set (trace t)" by blast
  have content: "[1, 2, 3, 9] = [1, 2, 3] @ drop (length [1, 2, 3 :: byte])
      (old_file (card_of used_card (trace (ble0 :: ble_st))) (on_card ''a''))"
    by (simp add: demo_old)
  have "flash_holds (\<lambda>_. 0) [1, 2, 3, 9] (trace t)"
    by (rule update_despite_remote [OF card_env_ok two_pieces_fit
          two_pieces_payload [symmetric] refl content _ u _ _ v t _ x])
      (use nf in \<open>simp_all add: ble0_def remote_line_def\<close>)
  with t show ?thesis by blast
qed

theorem session_releases_witness:
  "\<exists>rcs (t :: ble_st). run_state (shell_session demo_env demo_cfg [demo_dl, demo_wake]) ble0 = (Some rcs, t) \<and>
     same_resources [] (trace t) \<and> addrinfos (trace t) \<le> 1"
proof -
  from demo_session obtain u v :: ble_st where
    u: "run_state (shell_execute demo_env demo_cfg demo_dl) ble0 = (Some 0, u)"
    and v: "run_state (shell_session demo_env demo_cfg [demo_wake]) u = (Some [0], v)" by blast
  from session_Cons [OF u v]
  have run: "run_state (shell_session demo_env demo_cfg [demo_dl, demo_wake]) ble0 = (Some [0, 0], v)" .
  with session_releases [OF run] show ?thesis by (auto simp: ble0_def remote_line_def)
qed

theorem session_adv_ok_witness:
  "adv_ok (final (shell_session demo_env demo_cfg [demo_dl, demo_wake, demo_up]) ble0)"
proof -
  have "adv_ok ble0" by (simp add: adv_ok_def ble0_def host0_def)
  then show ?thesis by (rule session_adv_ok [OF _ run_result])
qed

end
