(* ===== verification/BleRecover.thy ===== *)
theory BleRecover
  imports BleSteps
begin

text \<open>
  Recovery of the remote of \<open>src/ble_rc.c\<close>, from every state the interleaved system can
  reach, on every platform: what the work queue makes of a disconnection, and when a wake-up
  command gets its packet on the air. The code does not repeat a start or a stop that the
  host refused, so both are about what happened unless one was refused meanwhile, which the
  trace shows.
\<close>

section \<open>Definitions\<close>

text \<open>The steps of the system work queue, and whether it has nothing to do.\<close>

definition work_queue :: "ble_label set" where
  "work_queue = {RunAdvWork, SwitchBegin, SwitchEnd}"

definition idle :: "ble_sys \<Rightarrow> bool" where
  "idle y \<longleftrightarrow> \<not> switching y \<and> \<not> switch_set (host y) \<and> \<not> adv_queued (host y)"

text \<open>
  What may happen besides: after a disconnection, callers that sleep in a command finish it,
  and further disconnections; after a wake-up command, also everything else that is no
  command and not the mode switch.
\<close>

fun recovery_label :: "ble_label \<Rightarrow> bool" where
  "recovery_label (StartEnd i) = True"
| "recovery_label (Disconnects dst reason) = True"
| "recovery_label l = (l \<in> work_queue)"

fun undisturbed_label :: "ble_label \<Rightarrow> bool" where
  "undisturbed_label (StartBegin i w n) = False"
| "undisturbed_label StopCall = False"
| "undisturbed_label UnpairCall = False"
| "undisturbed_label SwitchBegin = False"
| "undisturbed_label l = True"

text \<open>The starts and stops of advertising that the host refused so far.\<close>

abbreviation refusals :: "ble_sys \<Rightarrow> nat" where
  "refusals y \<equiv> failed bt_kind (trace (ble y))"

section \<open>The functions, unless a call fails\<close>

lemma adv_ok_air: "adv_ok s \<Longrightarrow> \<not> is_adv_running s \<longleftrightarrow> air (host_of (trace s)) = None"
  by (simp add: adv_ok_def)

text \<open>What a function does with the host, its flags and the count of failures.\<close>

definition more_failed :: "'a ble_st_scheme \<Rightarrow> 'a ble_st_scheme \<Rightarrow> bool" where
  "more_failed s t \<longleftrightarrow> failed bt_kind (trace s) < failed bt_kind (trace t)"

definition none_failed :: "'a ble_st_scheme \<Rightarrow> 'a ble_st_scheme \<Rightarrow> bool" where
  "none_failed s t \<longleftrightarrow> failed bt_kind (trace t) = failed bt_kind (trace s)"

lemma stop_effect:
  "run_state (advertising_stop env) s = (r, t) \<Longrightarrow>
     (more_failed s t \<or> none_failed s t \<and> \<not> is_adv_running t) \<and> g_btrc_st t = g_btrc_st s \<and>
     g_wakeup_adv_mode t = g_wakeup_adv_mode s \<and>
     switch_set (host_of (trace t)) = switch_set (host_of (trace s)) \<and>
     adv_queued (host_of (trace t)) = adv_queued (host_of (trace s))"
  by (auto simp: run_iff adv_defs more_failed_def none_failed_def)

lemma begin_effect:
  "run_state (try_advertising_begin env w) s = (u, t) \<Longrightarrow>
     (more_failed s t \<or> none_failed s t \<and> \<not> is_adv_running t) \<and> g_wakeup_adv_mode t = w"
  by (auto simp: run_iff adv_defs more_failed_def none_failed_def)

lemma start_effect:
  "run_state (advertising_start env) s = (u, t) \<Longrightarrow> none_failed s t \<and> is_adv_running t = is_adv_running s \<and>
     air (host_of (trace t)) = air (host_of (trace s)) \<and>
     g_wakeup_adv_mode t = g_wakeup_adv_mode s \<and> g_btrc_st t = g_btrc_st s \<and>
     switch_set (host_of (trace t)) = switch_set (host_of (trace s)) \<and>
     (adv_queued (host_of (trace t)) \<longleftrightarrow> adv_queued (host_of (trace s)) \<or> \<not> is_adv_running s)"
  by (auto simp: run_iff adv_defs none_failed_def)

lemma end_effect:
  "run_state (try_advertising_end env n) s = (r, t) \<Longrightarrow> none_failed s t \<and> is_adv_running t = is_adv_running s \<and>
     air (host_of (trace t)) = air (host_of (trace s)) \<and>
     g_wakeup_adv_mode t = g_wakeup_adv_mode s \<and> g_btrc_st t = g_btrc_st s \<and>
     (switch_set (host_of (trace t)) \<longleftrightarrow> switch_set (host_of (trace s)) \<or> n \<noteq> 0) \<and>
     (adv_queued (host_of (trace t)) \<longleftrightarrow> adv_queued (host_of (trace s)) \<or> \<not> is_adv_running s)"
  by (auto simp: run_iff adv_defs none_failed_def)

lemma switch_end_effect:
  "run_state (switch_end env) s = (u, t) \<Longrightarrow> none_failed s t \<and> is_adv_running t = is_adv_running s \<and>
     air (host_of (trace t)) = air (host_of (trace s)) \<and>
     \<not> g_wakeup_adv_mode t \<and> g_btrc_st t = g_btrc_st s \<and>
     switch_set (host_of (trace t)) = switch_set (host_of (trace s)) \<and>
     (adv_queued (host_of (trace t)) \<longleftrightarrow> adv_queued (host_of (trace s)) \<or>
        g_btrc_st s = BTRC_ST_DISCONNECTE \<and> \<not> is_adv_running s)"
  by (auto simp: run_iff adv_defs none_failed_def)

lemma disconnected_effect:
  "run_state (disconnected env dst reason) s = (u, t) \<Longrightarrow> none_failed s t \<and> is_adv_running t = is_adv_running s \<and>
     air (host_of (trace t)) = air (host_of (trace s)) \<and>
     g_wakeup_adv_mode t = g_wakeup_adv_mode s \<and>
     adv_queued (host_of (trace t)) = adv_queued (host_of (trace s)) \<and>
     (g_btrc_st t = g_btrc_st s \<or> g_btrc_st t = BTRC_ST_DISCONNECTE) \<and>
     (switch_set (host_of (trace s)) \<longrightarrow> switch_set (host_of (trace t))) \<and>
     (dst = None \<longrightarrow> switch_set (host_of (trace t)) = switch_set (host_of (trace s))) \<and>
     (dst \<noteq> None \<longrightarrow> g_btrc_st t = BTRC_ST_DISCONNECTE \<and> switch_set (host_of (trace t)))"
  by (auto simp: disconnected_def run_iff none_failed_def split: option.splits)

text \<open>The queued work starts a packet of the mode, if nothing is on the air.\<close>

lemma work_effect:
  "run_state (advertising_process env nm) s = (u, t) \<Longrightarrow>
     g_wakeup_adv_mode t = g_wakeup_adv_mode s \<and> g_btrc_st t = g_btrc_st s \<and>
     switch_set (host_of (trace t)) = switch_set (host_of (trace s)) \<and>
     adv_queued (host_of (trace t)) = adv_queued (host_of (trace s)) \<and>
     (if is_adv_running s then none_failed s t \<and> is_adv_running t \<and> air (host_of (trace t)) = air (host_of (trace s))
      else more_failed s t \<or> none_failed s t \<and> is_adv_running t \<and>
        (\<exists>p. air (host_of (trace t)) = Some p \<and> (p = ADV_NCONN_FAST \<longleftrightarrow> g_wakeup_adv_mode s)))"
  unfolding advertising_process_def advertising_continue_def with_identity_def
  by (auto simp: run_iff none_failed_def more_failed_def)

lemma noted_failures [simp]:
  "failed bt_kind (trace (slept s)) = failed bt_kind (trace s)"
  "failed bt_kind (trace (note_host HostRunAdvWork s)) = failed bt_kind (trace s)"
  "failed bt_kind (trace (note_host HostRunSwitchWork s)) = failed bt_kind (trace s)"
  by (simp_all add: slept_def note_host_def)

lemma noted_fields [simp]:
  "is_adv_running (slept s) = is_adv_running s" "is_adv_running (note_host e s) = is_adv_running s"
  "g_btrc_st (slept s) = g_btrc_st s" "g_btrc_st (note_host e s) = g_btrc_st s"
  "g_wakeup_adv_mode (slept s) = g_wakeup_adv_mode s" "g_wakeup_adv_mode (note_host e s) = g_wakeup_adv_mode s"
  "host_of (trace (slept s)) = host_of (trace s)"
  "host_of (trace (note_host HostRunAdvWork s)) = (host_of (trace s))\<lparr>adv_queued := False\<rparr>"
  "host_of (trace (note_host HostRunSwitchWork s)) = (host_of (trace s))\<lparr>switch_set := False\<rparr>"
  by (simp_all add: slept_def note_host_def)

text \<open>Failures only add up.\<close>

definition refused_at_least :: "nat \<Rightarrow> 'a ble_st_scheme \<Rightarrow> bool" where
  "refused_at_least n s \<longleftrightarrow> n \<le> failed bt_kind (trace s)"

lemma refused_runs:
  "preserves (refused_at_least n) (advertising_process env nm)"
  "preserves (refused_at_least n) (switch_begin env)"
  "preserves (refused_at_least n) (switch_end env)"
  "preserves (refused_at_least n) (try_advertising_begin env w)"
  "preserves (refused_at_least n) (try_advertising_end env k)"
  "preserves (refused_at_least n) (advertising_stop env)"
  "preserves (refused_at_least n) (cmd_delete_paired env)"
  "preserves (refused_at_least n) (connected env dst err)"
  "preserves (refused_at_least n) (disconnected env dst reason)"
  "preserves (refused_at_least n) (security_changed_cb e)"
  unfolding advertising_process_def advertising_continue_def adv_defs cmd_delete_paired_def try_unpair_def
    connected_def disconnected_def security_changed_cb_def
  by (intro pres_rules; auto simp: refused_at_least_def update_fe_data_def split: option.splits)+

lemma refused_noted [simp]:
  "refused_at_least n (slept s) = refused_at_least n s"
  "refused_at_least n (note_host e s) = (n \<le> failed bt_kind (trace s) + failed bt_kind [(Bt e, reply_rc 0)])"
  by (simp_all add: refused_at_least_def slept_def note_host_def)

lemma refused_step: "ble_step env nm y l z \<Longrightarrow> refused_at_least n (ble y) \<Longrightarrow> refused_at_least n (ble z)"
  unfolding ble_step_iff
  by (cases l)
    (auto split: if_splits option.splits simp: refused_at_least_def [of n "ble y"]
      intro!: preservesD [OF refused_runs(1) _ run_result] preservesD [OF refused_runs(2) _ run_result]
        preservesD [OF refused_runs(8) _ run_result]
      simp: refused_runs(3-7) [THEN preservesD, OF _ run_result] refused_runs(9,10) [THEN preservesD, OF _ run_result])

lemma refused_reach: "ble_reach env nm y ls z \<Longrightarrow> refusals y \<le> refusals z"
proof -
  have "ble_reach env nm y ls z \<Longrightarrow> refused_at_least n (ble y) \<Longrightarrow> refused_at_least n (ble z)" for n
    by (induction rule: ble_reach.induct) (auto intro: refused_step)
  from this [of "refusals y"] show "ble_reach env nm y ls z \<Longrightarrow> refusals y \<le> refusals z"
    by (simp add: refused_at_least_def)
qed

section \<open>Runs\<close>

lemma ble_reach_Nil: "ble_reach env nm y [] z \<Longrightarrow> z = y"
  by (auto elim: ble_reach.cases)

lemma ble_reach_snocE:
  assumes "ble_reach env nm y (ls @ [l]) z"
  obtains w where "ble_reach env nm y ls w" and "ble_step env nm w l z"
  using assms by (cases rule: ble_reach.cases) auto

lemma ble_reach_split: "ble_reach env nm y (ls @ ks) z \<Longrightarrow> \<exists>x. ble_reach env nm y ls x \<and> ble_reach env nm x ks z"
proof (induction ks arbitrary: z rule: rev_induct)
  case Nil
  then show ?case by (auto intro: ble_reach.refl)
next
  case (snoc l ks)
  then have "ble_reach env nm y ((ls @ ks) @ [l]) z" by simp
  then obtain w where w: "ble_reach env nm y (ls @ ks) w" "ble_step env nm w l z"
    by (rule ble_reach_snocE)
  with snoc.IH [OF w(1)] show ?case by (blast intro: ble_reach.more)
qed

lemma ble_reach_step: "ble_reach env nm x ls y \<Longrightarrow> ble_act env nm l y = Some z \<Longrightarrow> ble_reach env nm x (ls @ [l]) z"
  by (blast intro: ble_reach.more ble_step.step)

lemma ble_reach_first: "ble_act env nm l y = Some x \<Longrightarrow> ble_reach env nm x ks z \<Longrightarrow> ble_reach env nm y (l # ks) z"
  using ble_reach_trans [OF _ ble_reach_step [OF ble_reach.refl]] by fastforce

lemma ble_reach_firstD:
  assumes "ble_reach env nm y (l # ks) z"
  shows "\<exists>x. ble_act env nm l y = Some x \<and> ble_reach env nm x ks z"
proof -
  from ble_reach_split [of env nm y "[l]" ks z] assms obtain x where
    x: "ble_reach env nm y ([] @ [l]) x" "ble_reach env nm x ks z" by auto
  from x(1) have "ble_step env nm y l x" by (rule ble_reach_snocE) (auto dest: ble_reach_Nil)
  with x(2) show ?thesis by (auto elim: ble_stepE)
qed

text \<open>The steps of the work queue, with what they do.\<close>

lemma run_adv_work:
  assumes "ble_act env nm RunAdvWork y = Some z"
  shows "switching z = switching y" and "starting z = starting y" and "\<not> switching y"
    and "\<not> adv_queued (host z)" and "switch_set (host z) = switch_set (host y)"
    and "g_wakeup_adv_mode (ble z) = g_wakeup_adv_mode (ble y)" and "g_btrc_st (ble z) = g_btrc_st (ble y)"
    and "refusals y < refusals z \<or> refusals z = refusals y \<and> is_adv_running (ble z) \<and>
      (if is_adv_running (ble y) then air (host z) = air (host y)
       else \<exists>p. air (host z) = Some p \<and> (p = ADV_NCONN_FAST \<longleftrightarrow> g_wakeup_adv_mode (ble y)))"
proof -
  obtain t where t: "final (advertising_process env nm) (note_host HostRunAdvWork (ble y)) = t" by simp
  then have "run_state (advertising_process env nm) (note_host HostRunAdvWork (ble y)) = ((), t)"
    by (auto simp: final_def prod_eq_iff)
  note e = work_effect [OF this]
  from assms t have z: "z = y\<lparr>ble := t\<rparr>" and "\<not> switching y" by (auto split: if_splits)
  then show "switching z = switching y" "starting z = starting y" "\<not> switching y" by simp_all
  from e z show "\<not> adv_queued (host z)" "switch_set (host z) = switch_set (host y)"
    "g_wakeup_adv_mode (ble z) = g_wakeup_adv_mode (ble y)" "g_btrc_st (ble z) = g_btrc_st (ble y)"
    by (simp_all add: host_def)
  from e z show "refusals y < refusals z \<or> refusals z = refusals y \<and> is_adv_running (ble z) \<and>
      (if is_adv_running (ble y) then air (host z) = air (host y)
       else \<exists>p. air (host z) = Some p \<and> (p = ADV_NCONN_FAST \<longleftrightarrow> g_wakeup_adv_mode (ble y)))"
    by (auto simp: host_def none_failed_def more_failed_def split: if_splits)
qed

lemma run_switch_begin:
  assumes "ble_act env nm SwitchBegin y = Some z"
  shows "switching z" and "\<not> switching y" and "switch_set (host y)" and "\<not> switch_set (host z)"
    and "g_btrc_st (ble z) = g_btrc_st (ble y)" and "adv_queued (host z) = adv_queued (host y)"
    and "refusals y < refusals z \<or> refusals z = refusals y \<and> \<not> is_adv_running (ble z)"
proof -
  obtain t where t: "final (switch_begin env) (note_host HostRunSwitchWork (ble y)) = t" by simp
  then obtain r where "run_state (advertising_stop env) (note_host HostRunSwitchWork (ble y)) = (r, t)"
    by (auto simp: switch_begin_def final_def run_eval split: prod.splits)
  note e = stop_effect [OF this]
  from assms t have z: "z = y\<lparr>ble := t, switching := True\<rparr>" and y: "\<not> switching y" "switch_set (host y)"
    by (auto split: if_splits)
  from z y show "switching z" "\<not> switching y" "switch_set (host y)" by simp_all
  from e z show "\<not> switch_set (host z)" "g_btrc_st (ble z) = g_btrc_st (ble y)"
    "adv_queued (host z) = adv_queued (host y)"
    "refusals y < refusals z \<or> refusals z = refusals y \<and> \<not> is_adv_running (ble z)"
    by (auto simp: host_def none_failed_def more_failed_def)
qed

lemma run_switch_end:
  assumes "ble_act env nm SwitchEnd y = Some z"
  shows "switching y" and "\<not> switching z" and "switch_set (host z) = switch_set (host y)"
    and "refusals z = refusals y" and "is_adv_running (ble z) = is_adv_running (ble y)"
    and "air (host z) = air (host y)" and "\<not> g_wakeup_adv_mode (ble z)" and "g_btrc_st (ble z) = g_btrc_st (ble y)"
    and "adv_queued (host z) \<longleftrightarrow> adv_queued (host y) \<or>
        g_btrc_st (ble y) = BTRC_ST_DISCONNECTE \<and> \<not> is_adv_running (ble y)"
proof -
  obtain t where t: "final (switch_end env) (slept (ble y)) = t" by simp
  then have "run_state (switch_end env) (slept (ble y)) = ((), t)" by (auto simp: final_def prod_eq_iff)
  note e = switch_end_effect [OF this]
  from assms t have z: "z = y\<lparr>ble := t, switching := False\<rparr>" and y: "switching y" by (auto split: if_splits)
  then show "switching y" "\<not> switching z" by simp_all
  from e z show "switch_set (host z) = switch_set (host y)" "refusals z = refusals y"
    "is_adv_running (ble z) = is_adv_running (ble y)" "air (host z) = air (host y)"
    "\<not> g_wakeup_adv_mode (ble z)" "g_btrc_st (ble z) = g_btrc_st (ble y)"
    "adv_queued (host z) \<longleftrightarrow> adv_queued (host y) \<or>
        g_btrc_st (ble y) = BTRC_ST_DISCONNECTE \<and> \<not> is_adv_running (ble y)"
    by (simp_all add: host_def none_failed_def)
qed

text \<open>The callers that finish a command, and the disconnections.\<close>

lemma run_start_end:
  assumes "ble_act env nm (StartEnd j) y = Some z"
  shows "switching z = switching y" and "starting z = (starting y)(j := None)"
    and "switch_set (host y) \<Longrightarrow> switch_set (host z)"
    and "refusals z = refusals y" and "is_adv_running (ble z) = is_adv_running (ble y)"
    and "air (host z) = air (host y)" and "g_wakeup_adv_mode (ble z) = g_wakeup_adv_mode (ble y)"
    and "g_btrc_st (ble z) = g_btrc_st (ble y)"
    and "adv_queued (host z) \<longleftrightarrow> adv_queued (host y) \<or> \<not> is_adv_running (ble y)"
proof -
  from assms obtain k where z: "z = y\<lparr>ble := final (try_advertising_end env k) (slept (ble y)),
      starting := (starting y)(j := None)\<rparr>" by (auto split: option.splits)
  obtain r t where e: "run_state (try_advertising_end env k) (slept (ble y)) = (r, t)" by (metis surj_pair)
  then have "final (try_advertising_end env k) (slept (ble y)) = t" by (simp add: final_def)
  with z end_effect [OF e] show "switching z = switching y" "starting z = (starting y)(j := None)"
    "switch_set (host y) \<Longrightarrow> switch_set (host z)" "refusals z = refusals y"
    "is_adv_running (ble z) = is_adv_running (ble y)" "air (host z) = air (host y)"
    "g_wakeup_adv_mode (ble z) = g_wakeup_adv_mode (ble y)" "g_btrc_st (ble z) = g_btrc_st (ble y)"
    "adv_queued (host z) \<longleftrightarrow> adv_queued (host y) \<or> \<not> is_adv_running (ble y)"
    by (simp_all add: host_def none_failed_def)
qed

lemma run_disconnects:
  assumes "ble_act env nm (Disconnects dst reason) y = Some z"
  shows "switching z = switching y" and "starting z = starting y"
    and "switch_set (host y) \<or> dst \<noteq> None \<Longrightarrow> switch_set (host z)"
    and "refusals z = refusals y" and "is_adv_running (ble z) = is_adv_running (ble y)"
    and "air (host z) = air (host y)" and "g_wakeup_adv_mode (ble z) = g_wakeup_adv_mode (ble y)"
    and "g_btrc_st (ble y) = BTRC_ST_DISCONNECTE \<or> dst \<noteq> None \<Longrightarrow> g_btrc_st (ble z) = BTRC_ST_DISCONNECTE"
    and "adv_queued (host z) = adv_queued (host y)"
proof -
  obtain t where t: "final (disconnected env dst reason) (ble y) = t" by simp
  then have "run_state (disconnected env dst reason) (ble y) = ((), t)" by (auto simp: final_def prod_eq_iff)
  note e = disconnected_effect [OF this]
  from assms t have z: "z = y\<lparr>ble := t\<rparr>" by simp
  then show "switching z = switching y" "starting z = starting y" by simp_all
  from e z show "switch_set (host y) \<or> dst \<noteq> None \<Longrightarrow> switch_set (host z)" "refusals z = refusals y"
    "is_adv_running (ble z) = is_adv_running (ble y)" "air (host z) = air (host y)"
    "g_wakeup_adv_mode (ble z) = g_wakeup_adv_mode (ble y)"
    "g_btrc_st (ble y) = BTRC_ST_DISCONNECTE \<or> dst \<noteq> None \<Longrightarrow> g_btrc_st (ble z) = BTRC_ST_DISCONNECTE"
    "adv_queued (host z) = adv_queued (host y)"
    by (auto simp: host_def none_failed_def)
qed

text \<open>
  The work queue on its own comes to rest: each of its steps takes from what it has to do,
  at most six steps in all.
\<close>

definition to_do :: "ble_sys \<Rightarrow> nat" where
  "to_do y = (if switching y then 2 else 0) + (if switch_set (host y) then 3 else 0) + (if adv_queued (host y) then 1 else 0)"

lemma work_queue_next:
  assumes "\<not> idle y"
  shows "\<exists>l z. l \<in> work_queue \<and> ble_act env nm l y = Some z \<and> to_do z < to_do y"
proof -
  consider "switching y" | "\<not> switching y" "switch_set (host y)"
    | "\<not> switching y" "\<not> switch_set (host y)" "adv_queued (host y)" using assms by (auto simp: idle_def)
  then show ?thesis
  proof cases
    case 1
    then obtain z where z: "ble_act env nm SwitchEnd y = Some z" by simp
    with run_switch_end [OF z] have "to_do z < to_do y" by (simp add: to_do_def)
    with z show ?thesis by (auto simp: work_queue_def)
  next
    case 2
    then obtain z where z: "ble_act env nm SwitchBegin y = Some z" by simp
    with run_switch_begin [OF z] have "to_do z < to_do y" by (simp add: to_do_def)
    with z show ?thesis by (auto simp: work_queue_def)
  next
    case 3
    then obtain z where z: "ble_act env nm RunAdvWork y = Some z" by simp
    with run_adv_work [OF z] 3 have "to_do z < to_do y" by (simp add: to_do_def)
    with z show ?thesis by (auto simp: work_queue_def)
  qed
qed

lemma work_queue_rests:
  "\<exists>ks z. set ks \<subseteq> work_queue \<and> length ks \<le> to_do y \<and> ble_reach env nm y ks z \<and> idle z"
proof (induction "to_do y" arbitrary: y rule: less_induct)
  case less
  show ?case
  proof (cases "idle y")
    case True
    then show ?thesis by (intro exI [of _ "[]"] exI [of _ y]) (simp add: ble_reach.refl)
  next
    case False
    from work_queue_next [OF False, of env nm] obtain l x where
      x: "l \<in> work_queue" "ble_act env nm l y = Some x" "to_do x < to_do y" by blast
    from less [OF x(3)] obtain ks z where
      z: "set ks \<subseteq> work_queue" "length ks \<le> to_do x" "ble_reach env nm x ks z" "idle z" by blast
    with x ble_reach_first [OF x(2) z(3)] show ?thesis
      by (intro exI [of _ "l # ks"] exI [of _ z]) simp
  qed
qed

section \<open>After a disconnection\<close>

text \<open>
  With \<open>n\<close> refusals before: more since then, or the remote is on its way: the switch is
  scheduled, or sleeps with nothing on the air, or has cleared the mode and a connectable
  packet is on the air or queued.
\<close>

definition recovering :: "nat \<Rightarrow> ble_sys \<Rightarrow> bool" where
  "recovering n y \<longleftrightarrow> n < refusals y \<or>
     refusals y = n \<and> g_btrc_st (ble y) = BTRC_ST_DISCONNECTE \<and>
       (switch_set (host y) \<or> switching y \<and> \<not> is_adv_running (ble y) \<or>
        \<not> g_wakeup_adv_mode (ble y) \<and>
          (if is_adv_running (ble y) then connectable (air (host y)) else adv_queued (host y)))"

lemma recovering_step:
  assumes "ble_step env nm y l z" and "recovering n y" and "recovery_label l"
  shows "recovering n z"
proof (cases "n < refusals y")
  case True
  then have "refused_at_least (Suc n) (ble y)" by (simp add: refused_at_least_def)
  from refused_step [OF assms(1) this] show ?thesis by (simp add: recovering_def refused_at_least_def)
next
  case False
  from assms(1) have act: "ble_act env nm l y = Some z" by (rule ble_stepE)
  from assms(3) consider "l = RunAdvWork" | "l = SwitchBegin" | "l = SwitchEnd" | i where "l = StartEnd i"
    | dst reason where "l = Disconnects dst reason" by (cases l) (auto simp: work_queue_def)
  then show ?thesis
  proof cases
    case 1
    from run_adv_work [OF act [unfolded 1]] assms(2) False show ?thesis
      by (auto simp: recovering_def connectable_def split: if_splits)
  next
    case 2
    from run_switch_begin [OF act [unfolded 2]] assms(2) False show ?thesis by (auto simp: recovering_def)
  next
    case 3
    from run_switch_end [OF act [unfolded 3]] assms(2) False show ?thesis
      by (auto simp: recovering_def split: if_splits)
  next
    case 4
    from run_start_end [OF act [unfolded 4]] assms(2) False show ?thesis
      by (auto simp: recovering_def split: if_splits)
  next
    case 5
    from run_disconnects [OF act [unfolded 5]] assms(2) False show ?thesis
      by (auto simp: recovering_def split: if_splits)
  qed
qed

lemma recovering_reach:
  "ble_reach env nm y ks z \<Longrightarrow> recovering n y \<Longrightarrow> list_all recovery_label ks \<Longrightarrow> recovering n z"
  by (induction rule: ble_reach.induct) (auto intro: recovering_step)

lemma disconnects_recovering:
  assumes "ble_act env nm (Disconnects (Some a) reason) y = Some z"
  shows "recovering (refusals y) z"
  using run_disconnects [OF assms] by (simp add: recovering_def)

section \<open>After a wake-up command\<close>

definition waking :: "nat \<Rightarrow> nat \<Rightarrow> ble_sys \<Rightarrow> bool" where
  "waking n i y \<longleftrightarrow> n < refusals y \<or>
     refusals y = n \<and> adv_ok (ble y) \<and> \<not> switching y \<and> g_wakeup_adv_mode (ble y) \<and>
       (if is_adv_running (ble y) then air (host y) = Some ADV_NCONN_FAST
        else starting y i \<noteq> None \<or> adv_queued (host y))"

lemma security_effect:
  "run_state (security_changed_cb e) s = (u, t) \<Longrightarrow> trace t = trace s \<and> is_adv_running t = is_adv_running s \<and>
     g_wakeup_adv_mode t = g_wakeup_adv_mode s"
  by (auto simp: security_changed_cb_def run_iff)

lemma waking_step:
  assumes "ble_step env nm y l z" and "waking n i y" and "undisturbed_label l"
  shows "waking n i z"
proof (cases "n < refusals y")
  case True
  then have "refused_at_least (Suc n) (ble y)" by (simp add: refused_at_least_def)
  from refused_step [OF assms(1) this] show ?thesis by (simp add: waking_def refused_at_least_def)
next
  case False
  with assms(2) have y: "refusals y = n" "adv_ok (ble y)" "\<not> switching y" "g_wakeup_adv_mode (ble y)"
    by (auto simp: waking_def)
  have z: "adv_ok (ble z)" by (rule ble_step_ok [OF assms(1) y(2)])
  from assms(1) have act: "ble_act env nm l y = Some z" by (rule ble_stepE)
  show ?thesis
  proof (cases l)
    case RunAdvWork
    from run_adv_work [OF act [unfolded RunAdvWork]] assms(2) False z show ?thesis
      by (auto simp: waking_def split: if_splits)
  next
    case (StartEnd j)
    from run_start_end [OF act [unfolded StartEnd]] assms(2) False z show ?thesis
      by (auto simp: waking_def split: if_splits)
  next
    case (Connects dst err)
    then have "connectable (air (host y))" using assms(1) by (auto simp: ble_step_iff split: if_splits)
    with assms(2) False y(2) show ?thesis by (auto simp: waking_def connectable_def host_def adv_ok_def split: if_splits)
  next
    case (Disconnects dst reason)
    from run_disconnects [OF act [unfolded Disconnects]] assms(2) False z show ?thesis
      by (auto simp: waking_def split: if_splits)
  next
    case (Secures e)
    with assms security_effect [OF run_result, where e = e and s = "ble y"] y z show ?thesis
      by (auto simp: ble_step_iff waking_def host_def)
  qed (use assms(1,3) y(3) in \<open>auto simp: ble_step_iff\<close>)
qed

lemma waking_reach:
  "ble_reach env nm y ks z \<Longrightarrow> waking n i y \<Longrightarrow> list_all undisturbed_label ks \<Longrightarrow> waking n i z"
  by (induction rule: ble_reach.induct) (auto intro: waking_step)

lemma command_waking:
  assumes "ble_act env nm (StartBegin i True n) y = Some z" and "adv_ok (ble y)" and "\<not> switching y"
  shows "waking (refusals y) i z"
proof -
  have ok: "adv_ok (ble z)" using ble_step_ok [OF ble_step.step [OF assms(1)] assms(2)] .
  obtain t where t: "final (try_advertising_begin env True) (ble y) = t" by simp
  then have "run_state (try_advertising_begin env True) (ble y) = ((), t)" by (auto simp: final_def prod_eq_iff)
  note e = begin_effect [OF this]
  from assms(1) t have z: "z = y\<lparr>ble := t, starting := (starting y)(i \<mapsto> n)\<rparr>" by (simp split: if_splits)
  from e z ok assms(3) show ?thesis
    by (elim conjE disjE) (simp_all add: waking_def none_failed_def more_failed_def)
qed

text \<open>Finishing the command and running the work it queued takes two steps.\<close>

lemma command_finishes:
  assumes "starting y i \<noteq> None" and "\<not> switching y"
  shows "\<exists>ks z. set ks \<subseteq> {StartEnd i, RunAdvWork} \<and> length ks \<le> 2 \<and> ble_reach env nm y ks z \<and>
    starting z i = None \<and> \<not> adv_queued (host z)"
proof -
  obtain x where x: "ble_act env nm (StartEnd i) y = Some x" "starting x i = None" "\<not> switching x"
    using assms by auto
  have r: "ble_reach env nm y [StartEnd i] x" using ble_reach_first [OF x(1) ble_reach.refl] .
  show ?thesis
  proof (cases "adv_queued (host x)")
    case False
    with r x show ?thesis by (intro exI [of _ "[StartEnd i]"] exI [of _ x]) simp
  next
    case True
    then obtain z where z: "ble_act env nm RunAdvWork x = Some z" using x(3) by simp
    from ble_reach_first [OF x(1) ble_reach_first [OF z ble_reach.refl]] x(2) run_adv_work(2,4) [OF z] show ?thesis
      by (intro exI [of _ "[StartEnd i, RunAdvWork]"] exI [of _ z]) simp
  qed
qed

section \<open>Properties\<close>

text \<open>
  C9: The remote comes back after a disconnection, from every reachable state and on every
  platform: wherever callers, work queue and host are when the connection ends, the work
  queue has done what is scheduled after at most six steps; and whatever order its steps
  come in, also with callers finishing commands they were in the middle of and further
  disconnections meanwhile, when it has nothing left to do a connectable packet is on the
  air, unless the host refused to start or to stop advertising since the connection ended.
\<close>

theorem remote_recovers:
  assumes "ble_reach env nm sys0 ls y"
  shows "(\<exists>ks z. set ks \<subseteq> work_queue \<and> length ks \<le> 6 \<and>
      ble_reach env nm y (Disconnects (Some a) reason # ks) z \<and> idle z) \<and>
    (\<forall>ks z. list_all recovery_label ks \<longrightarrow> ble_reach env nm y (Disconnects (Some a) reason # ks) z \<longrightarrow> idle z \<longrightarrow>
      connectable (air (host z)) \<or> refusals y < refusals z)"
proof (intro conjI allI impI)
  obtain x where x: "ble_act env nm (Disconnects (Some a) reason) y = Some x" by simp
  have "to_do x \<le> 6" by (simp add: to_do_def)
  with work_queue_rests [of x env nm] ble_reach_first [OF x]
  show "\<exists>ks z. set ks \<subseteq> work_queue \<and> length ks \<le> 6 \<and>
      ble_reach env nm y (Disconnects (Some a) reason # ks) z \<and> idle z"
    by (meson le_trans)
next
  fix ks z
  assume ks: "list_all recovery_label ks" and run: "ble_reach env nm y (Disconnects (Some a) reason # ks) z"
    and "idle z"
  from ble_reach_firstD [OF run] obtain x where
    x: "ble_act env nm (Disconnects (Some a) reason) y = Some x" "ble_reach env nm x ks z" by blast
  from recovering_reach [OF x(2) disconnects_recovering [OF x(1)] ks] \<open>idle z\<close>
  show "connectable (air (host z)) \<or> refusals y < refusals z"
    by (auto simp: recovering_def idle_def split: if_splits)
qed

text \<open>
  C10: A wake-up command gets its packet on the air, from every reachable state in which the mode
  switch does not sleep, on every platform and under every schedule in which nothing disturbs
  it: the mode switch does not begin and nobody gives another command. Whatever was on the
  air before, whoever is in the middle of a command, and whatever connects and disconnects
  meanwhile, once the command has returned and no work is queued the wake-up packet is on
  the air, unless the host refused to start or to stop advertising since the command. And the
  command gets there, in at most two steps. (Where the switch sleeps, it is lost:
  \<open>wakeup_can_be_lost\<close>.)
\<close>

theorem wakeup_goes_out:
  assumes "ble_reach env nm sys0 ls y" and "\<not> switching y" and "starting y i = None"
  shows "(\<exists>ks z. set ks \<subseteq> {StartEnd i, RunAdvWork} \<and> length ks \<le> 2 \<and>
      ble_reach env nm y (StartBegin i True n # ks) z \<and> starting z i = None \<and> \<not> adv_queued (host z)) \<and>
    (\<forall>ks z. list_all undisturbed_label ks \<longrightarrow> ble_reach env nm y (StartBegin i True n # ks) z \<longrightarrow>
      starting z i = None \<longrightarrow> \<not> adv_queued (host z) \<longrightarrow>
      air (host z) = Some ADV_NCONN_FAST \<or> refusals y < refusals z)"
proof (intro conjI allI impI)
  obtain x where x: "ble_act env nm (StartBegin i True n) y = Some x" "starting x i \<noteq> None" "\<not> switching x"
    using assms(2,3) by auto
  from command_finishes [OF x(2,3), of env nm] ble_reach_first [OF x(1)]
  show "\<exists>ks z. set ks \<subseteq> {StartEnd i, RunAdvWork} \<and> length ks \<le> 2 \<and>
      ble_reach env nm y (StartBegin i True n # ks) z \<and> starting z i = None \<and> \<not> adv_queued (host z)"
    by meson
next
  fix ks z
  assume ks: "list_all undisturbed_label ks" and run: "ble_reach env nm y (StartBegin i True n # ks) z"
    and z: "starting z i = None" "\<not> adv_queued (host z)"
  from ble_reach_firstD [OF run] obtain x where
    x: "ble_act env nm (StartBegin i True n) y = Some x" "ble_reach env nm x ks z" by blast
  from waking_reach [OF x(2) command_waking [OF x(1) ble_reach_ok [OF assms(1) sys0_ok] assms(2)] ks] z
  show "air (host z) = Some ADV_NCONN_FAST \<or> refusals y < refusals z"
    by (auto simp: waking_def split: if_splits)
qed

text \<open>After a wake-up: the host disconnects, and another caller gives a wake-up command.\<close>

definition recovery_run :: "ble_label list" where
  "recovery_run = [SwitchBegin, SwitchEnd, RunAdvWork]"

definition recovered_sys :: ble_sys where
  "recovered_sys = the (ble_run (sim_env []) [82] (Disconnects (Some phone) 0x13 # recovery_run) (the wakeup_sys))"

definition woken_sys :: ble_sys where
  "woken_sys = the (ble_run (sim_env []) [82] [StartBegin 1 True 10, StartEnd 1, RunAdvWork] (the wakeup_sys))"

theorem remote_recovers_witness:
  "idle recovered_sys \<and> refusals recovered_sys = 0 \<and> connectable (air (host recovered_sys))"
proof -
  have "ble_run (sim_env []) [82] (Disconnects (Some phone) 0x13 # recovery_run) (the wakeup_sys) \<noteq> None" by code_simp
  then have run: "ble_reach (sim_env []) [82] (the wakeup_sys) (Disconnects (Some phone) 0x13 # recovery_run) recovered_sys"
    unfolding recovered_sys_def by (auto intro: ble_run_reach)
  have facts: "list_all recovery_label recovery_run" "idle recovered_sys" "refusals recovered_sys = 0" by code_simp+
  from remote_recovers [OF wakeup_reached(2), THEN conjunct2, rule_format, OF facts(1) run facts(2)] facts
  show ?thesis by simp
qed

theorem wakeup_goes_out_witness: "refusals woken_sys = 0 \<and> air (host woken_sys) = Some ADV_NCONN_FAST"
proof -
  have "ble_run (sim_env []) [82] [StartBegin 1 True 10, StartEnd 1, RunAdvWork] (the wakeup_sys) \<noteq> None" by code_simp
  then have run: "ble_reach (sim_env []) [82] (the wakeup_sys) [StartBegin 1 True 10, StartEnd 1, RunAdvWork] woken_sys"
    unfolding woken_sys_def by (auto intro: ble_run_reach)
  have y: "\<not> switching (the wakeup_sys)" "starting (the wakeup_sys) 1 = None" by code_simp+
  have z: "list_all undisturbed_label [StartEnd 1, RunAdvWork]" "starting woken_sys 1 = None"
    "\<not> adv_queued (host woken_sys)" "refusals woken_sys = 0" by code_simp+
  from wakeup_goes_out [OF wakeup_reached(2) y, THEN conjunct2, rule_format, OF z(1) run z(2,3)] z(4)
  show ?thesis by simp
qed

end
