(* ===== verification/Spec2Isabelle.thy ===== *)
theory Spec2Isabelle
  imports Upgrade Sha256sum Fatfs HttpClient HttpDl SdSpeed Lfs WsCli HidReport
    BleRc BleSteps BtCk RpcRoute RpcSend EvtQueue MainLoop EvtSteps Card
    BtStop Shell BleRecover
begin

text \<open>
  A model of the firmware of an ESP32-S3 Bluetooth remote control with network access (C on
  Zephyr; \<open>size_t\<close>, \<open>long\<close> and pointers are 32 bits wide).

  \<^bold>\<open>The program.\<close> The main thread (\<open>src/main.c\<close>) confirms the running image, mounts the SD
  card, and then polls an eventfd (and a websocket, if there were one). Other threads post
  events to its queue; handling one joins the Wi-Fi network (\<open>src/sta.c\<close>) or brings up the
  Bluetooth remote (\<open>src/ble_rc.c\<close>). The remote advertises to pair, to reconnect to its last
  bond, or to wake up its host; connection callbacks, a delayed work item, shell commands
  and the remote procedure calls of \<open>src/rpc_route.c\<close> all act on its advertising state. A
  test thread reboots the host through an HTTP relay (\<open>src/http_client.c\<close>) and wakes it up.
  Shell commands download files (\<open>src/http_dl.c\<close>, with the digest of \<open>src/sha256sum.c\<close>),
  install them as firmware (\<open>src/upgrade.c\<close>) and measure the card (\<open>src/sd_speed.c\<close>).

  \<^bold>\<open>How the code is modelled.\<close> A C function is a program of the state monad over a record
  that holds the globals of its file; the records extend each other as the files build on
  each other (\<open>io\<close>, \<open>wscli_st\<close>, \<open>hid_st\<close>, \<open>ble_st\<close>, \<open>evt_st\<close>). A call into Zephyr is recorded
  in the \<open>trace\<close> of the state with the reply of an environment \<open>env\<close>, an arbitrary function of
  the history, so that a statement for every \<open>env\<close> holds whatever the platform does. Documented
  behaviour of the platform is a predicate on environments: \<open>file_content\<close> (reading a file),
  \<open>flash_cells\<close> (NOR flash), \<open>eventfd_works\<close>, \<open>recv_script\<close>, \<open>encodes\<close> (the JSON encoder) and
  others; each is met by a concrete environment in the witnesses. Where a statement needs that
  nothing failed, it mostly says so of the execution and not of the platform: \<open>failed\<close> counts
  the calls of a kind that the trace shows to have failed. Error returns are the
  integers of the source; an access outside of an array is a \<open>None\<close>, the value \<open>Undefined\<close> or,
  in \<open>ble_rc.c\<close>, the flag \<open>mem_fault\<close>.

  \<^bold>\<open>Theories.\<close>
  \<^item> \<open>Prelude\<close>: machine types, \<open>loop_fuel\<close> and the locales \<open>loop_contract\<close> and \<open>total_loop\<close>
    for loops, rules for symbolic runs (\<open>run_iff\<close>, \<open>run_eval\<close>), for invariants (\<open>preserves\<close>)
    and for independence (\<open>commutes\<close>) along the structure of a program.
  \<^item> \<open>Platform\<close>: the platform calls, the trace, resources counted on it (locale \<open>resource\<close>).
  \<^item> \<open>CString\<close>: \<open>strcmp\<close>, \<open>strncmp\<close>, \<open>atoi\<close>, \<open>strtol\<close>, \<open>strtoul\<close>, \<open>snprintf\<close> of paths.
  \<^item> \<open>Upgrade\<close> (\<open>upgrade.c\<close>): the image is in flash whenever the copy reports success, no
    reboot without it, the copy returns and leaks nothing.
  \<^item> \<open>Sha256sum\<close> (\<open>sha256sum.c\<close>): the digest is that of the file, for every hash function.
  \<^item> \<open>Fatfs\<close>, \<open>Lfs\<close>, \<open>SdSpeed\<close> (\<open>fatfs.c\<close>, \<open>lfs.c\<close>, \<open>sd_speed.c\<close>): listing, sample data,
    refinement of the littlefs run to an abstract store, amounts written and read.
  \<^item> \<open>HttpClient\<close>, \<open>HttpDl\<close> (\<open>http_client.c\<close>, \<open>http_dl.c\<close>): requests to the relay, downloads.
  \<^item> \<open>Card\<close>: the files on the card, folded from the trace (\<open>card_of\<close>). \<open>download_shows_digest\<close>:
    what \<open>http_dl\<close> leaves on the card and which digest it prints, on every platform;
    \<open>update_completes\<close>: where no call fails (\<open>network_ok\<close>, \<open>card_takes\<close>, \<open>upgrade_works\<close>) and the
    card keeps what it holds (\<open>card_ok\<close>), downloading and installing a file reboots into it.
  \<^item> \<open>WsCli\<close> (\<open>wscli.c\<close>): the two sockets of the websocket client, receiving.
  \<^item> \<open>HidReport\<close> (\<open>ble_rc.c\<close>, the HID service): report map, GATT callbacks, key reports,
    advertising payloads.
  \<^item> \<open>BleRc\<close> (\<open>ble_rc.c\<close>, advertising and connections): each function, the ones with a sleep
    also as the parts before and behind it; what the host has on the air is folded from the
    trace (\<open>host_of\<close>), and \<open>adv_ok\<close> says that the flag of the code mirrors it. The callers
    rely on the interface \<open>adv_ctl\<close>, interpreted on the model as \<open>ble_adv\<close>.
  \<^item> \<open>BleSteps\<close>: work queue, callers and host interleaved at the sleeps, as a step relation;
    invariants of all reachable states (the flag, the mode of the packet on the air, whom the
    wake-up packet addresses), and when a wake-up is lost. \<open>BleRecover\<close>: under every schedule a
    disconnection ends in a connectable packet, and a wake-up gets out, unless the host refused
    to start or to stop advertising, which the code does not retry.
  \<^item> \<open>BtCk\<close> (\<open>ble_rc.c\<close>, the reboot test), with arbitrary interference at its sleeps; \<open>BtStop\<close>: a
    stopped test returns within a second (time is the number of its one-second sleeps; requests
    and shorter sleeps take none), and which requests it has sent to the relay.
  \<^item> \<open>Shell\<close>: the commands all files register, and sessions of them: what the commands of the
    remote and those of the card leave alone of each other (locales \<open>remote_bystander\<close>,
    \<open>card_bystander\<close>), so that \<open>update_despite_remote\<close> holds with the remote used meanwhile.
  \<^item> \<open>RpcRoute\<close>, \<open>RpcSend\<close> (\<open>rpc_route.c\<close>, \<open>rpc_send.c\<close>): executing a request is performing
    the command it denotes; messages stay inside their buffers.
  \<^item> \<open>EvtQueue\<close> (\<open>main.c\<close>, \<open>sta.c\<close>): the queue, its handlers, the station; draining the queue
    equals handling its messages in order (locale \<open>evt_handlers\<close>).
  \<^item> \<open>MainLoop\<close> (\<open>main.c\<close>): boot and the poll loop; what handling leaves alone (locales
    \<open>bystander\<close>, \<open>queue_bystander\<close>).
  \<^item> \<open>EvtSteps\<close>: senders and main loop interleaved; no event and no wake-up is lost, and
    every message is freed once. The handler of its loop is \<open>evt_dispatch\<close> with an entry in a
    record of the messages it has handled (\<open>evt_logged\<close>).

  \<^bold>\<open>Fuel.\<close> A loop takes fuel and \<open>None\<close> (or \<open>Running\<close>) means it has not ended with it. More
  fuel than the file has bytes is enough for the image copy and the digest, more than the
  directory has entries for a listing, more than the announced bytes for the speed test,
  more than the queued messages for \<open>evt_handle\<close>, more than the seconds until the stop for the
  reboot test; each is a theorem. The main loop and the
  test loops never end by design: their theorems hold for every number of turns.

  \<^bold>\<open>Not modelled.\<close> Log and console output except where a file's purpose is its output (digests,
  patterns, progress); \<open>dump_version_infos\<close>; the floating-point quotient in the printed
  rates; code under \<open>#if 0\<close> and the semaphore variant of \<open>sta.c\<close>, which no build enables;
  \<open>k_work_init\<close> on work items in use when \<open>ble_rc_init\<close> runs a second time; preemption inside
  a function between two of its sleeps (the Bluetooth contexts interleave at sleeps, the
  event queue under its mutex); build scripts, configuration and board files, of which
  what the code reads is a parameter.
\<close>

end
